theory Spec2Isabelle
  imports Main
begin

section \<open>Python strings\<close>

text \<open>
  A Python \<open>str\<close> is modelled as a \<open>string\<close> whose characters are the code points
  U+0000 to U+00FF.  The character tests below are the ones CPython applies on that range:
  \<open>str.isspace\<close> (used by \<open>str.strip\<close> and by the regex class \<open>\s\<close>), the decimal digits
  (\<open>\d\<close>), the word characters (\<open>\w\<close>: alphanumerics and the underscore) and the simple
  lower-case mapping (used by \<open>str.lower\<close> and by \<open>re.IGNORECASE\<close>).
\<close>

definition ord :: "char \<Rightarrow> nat" where
  "ord c = of_char c"

definition is_space :: "char \<Rightarrow> bool" where
  "is_space c = (let n = ord c in (9 \<le> n \<and> n \<le> 13) \<or> (28 \<le> n \<and> n \<le> 32) \<or> n = 133 \<or> n = 160)"

definition is_digit :: "char \<Rightarrow> bool" where
  "is_digit c = (let n = ord c in 48 \<le> n \<and> n \<le> 57)"

definition is_word :: "char \<Rightarrow> bool" where
  "is_word c = (let n = ord c in
     (48 \<le> n \<and> n \<le> 57) \<or> (65 \<le> n \<and> n \<le> 90) \<or> n = 95 \<or> (97 \<le> n \<and> n \<le> 122) \<or>
     n = 170 \<or> n = 178 \<or> n = 179 \<or> n = 181 \<or> n = 185 \<or> n = 186 \<or> (188 \<le> n \<and> n \<le> 190) \<or>
     (192 \<le> n \<and> n \<le> 214) \<or> (216 \<le> n \<and> n \<le> 246) \<or> 248 \<le> n)"

definition lower_char :: "char \<Rightarrow> char" where
  "lower_char c = (let n = ord c in
     if (65 \<le> n \<and> n \<le> 90) \<or> (192 \<le> n \<and> n \<le> 214) \<or> (216 \<le> n \<and> n \<le> 222)
     then char_of (n + 32) else c)"

definition is_cased :: "char \<Rightarrow> bool" where
  "is_cased c = (let n = ord c in
     (65 \<le> n \<and> n \<le> 90) \<or> (97 \<le> n \<and> n \<le> 122) \<or> n = 170 \<or> n = 181 \<or> n = 186 \<or>
     (192 \<le> n \<and> n \<le> 214) \<or> (216 \<le> n \<and> n \<le> 246) \<or> 248 \<le> n)"

text \<open>
  The title-case mapping of a character.  The three characters of the range whose title case
  lies outside it (U+00B5, U+00DF, U+00FF) are left as they are; \<open>py_title\<close> is only ever
  applied to the ASCII field names.
\<close>

definition title_char :: "char \<Rightarrow> char" where
  "title_char c = (let n = ord c in
     if (97 \<le> n \<and> n \<le> 122) \<or> (224 \<le> n \<and> n \<le> 246) \<or> (248 \<le> n \<and> n \<le> 254)
     then char_of (n - 32) else c)"

definition py_lower :: "string \<Rightarrow> string" where
  "py_lower s = map lower_char s"

fun title_from :: "bool \<Rightarrow> string \<Rightarrow> string" where
  "title_from previous_is_cased [] = []"
| "title_from previous_is_cased (c # cs) =
     (if previous_is_cased then lower_char c else title_char c) # title_from (is_cased c) cs"

definition py_title :: "string \<Rightarrow> string" where
  "py_title s = title_from False s"

definition py_replace :: "char \<Rightarrow> char \<Rightarrow> string \<Rightarrow> string" where
  \<comment> \<open>\<open>s.replace(old, new)\<close> for one-character \<open>old\<close> and \<open>new\<close>\<close>
  "py_replace old new s = map (\<lambda>c. if c = old then new else c) s"

definition py_strip :: "string \<Rightarrow> string" where
  "py_strip s = rev (dropWhile is_space (rev (dropWhile is_space s)))"

fun py_split :: "char \<Rightarrow> string \<Rightarrow> string list" where
  \<comment> \<open>\<open>s.split(sep)\<close> for a one-character separator: never an empty list\<close>
  "py_split sep [] = [[]]"
| "py_split sep (c # cs) =
     (if c = sep then [] # py_split sep cs
      else (case py_split sep cs of [] \<Rightarrow> [[c]] | l # ls \<Rightarrow> (c # l) # ls))"

fun py_join :: "string \<Rightarrow> string list \<Rightarrow> string" where
  "py_join sep [] = []"
| "py_join sep [x] = x"
| "py_join sep (x # y # ys) = x @ sep @ py_join sep (y # ys)"

definition endswith :: "string \<Rightarrow> string \<Rightarrow> bool" where
  "endswith s suffix = (length suffix \<le> length s \<and> drop (length s - length suffix) s = suffix)"

definition NL :: char where
  "NL = CHR 0x0A"

section \<open>Python values, exceptions and dicts\<close>

datatype pyval = Str string | PyNone

fun py_str :: "pyval \<Rightarrow> string" where
  \<comment> \<open>how an f-string formats the value\<close>
  "py_str (Str s) = s"
| "py_str PyNone = ''None''"

text \<open>A raised \<open>Exception\<close>; the string is what \<open>str(e)\<close> gives.\<close>

datatype exn = Exn string

fun message :: "exn \<Rightarrow> string" where
  "message (Exn m) = m"

text \<open>
  A \<open>dict\<close> keeps its keys in insertion order: an association list with distinct keys, where
  assigning to a present key replaces the value in place and a new key goes to the end.
\<close>

fun dict_set :: "'k \<Rightarrow> 'v \<Rightarrow> ('k \<times> 'v) list \<Rightarrow> ('k \<times> 'v) list" where
  "dict_set k v [] = [(k, v)]"
| "dict_set k v ((k', v') # d) = (if k' = k then (k', v) # d else (k', v') # dict_set k v d)"

definition dict_get :: "('k \<times> 'v) list \<Rightarrow> 'k \<Rightarrow> 'v option" where
  "dict_get d k = map_of d k"

section \<open>Document preprocessing\<close>

text \<open>
  What lies outside the program is a parameter: the files (\<open>read_bytes\<close> for a file opened
  with \<open>'rb'\<close>, \<open>read_text\<close> for one opened with \<open>'r'\<close>), the PDF reader (for the bytes of a
  file, the pages, each with the result of its \<open>extract_text()\<close>) and the two requests of
  the vision client: \<open>document_text_detection\<close> gives \<open>full_text_annotation.text\<close>,
  \<open>text_detection\<close> the descriptions of \<open>text_annotations\<close>.  Each of them may raise.
  The requests made to the vision client are recorded, in order, in a list that the functions
  take and return.
\<close>

type_synonym bytes = "char list"

record world =
  read_bytes :: "string \<Rightarrow> exn + bytes"
  read_text :: "string \<Rightarrow> exn + string"
  pdf_pages :: "bytes \<Rightarrow> exn + (exn + string) list"
  document_text_detection :: "bytes \<Rightarrow> exn + string"
  text_detection :: "bytes \<Rightarrow> exn + string list"

datatype ocr_call = DocumentTextDetection bytes | TextDetection bytes

definition ocr_pdf :: "world \<Rightarrow> string \<Rightarrow> ocr_call list \<Rightarrow> (exn + string) \<times> ocr_call list" where
  "ocr_pdf w pdf_path calls =
     (case read_bytes w pdf_path of
        Inl e \<Rightarrow> (Inl e, calls)
      | Inr content \<Rightarrow>
          (document_text_detection w content, calls @ [DocumentTextDetection content]))"

fun extract_pages :: "(exn + string) list \<Rightarrow> string \<Rightarrow> exn + string" where
  \<comment> \<open>the loop \<open>text += page.extract_text() + "\n"\<close>\<close>
  "extract_pages [] text = Inr text"
| "extract_pages (page # pages) text =
     (case page of Inl e \<Rightarrow> Inl e | Inr page_text \<Rightarrow> extract_pages pages (text @ page_text @ [NL]))"

definition preprocess_pdf :: "world \<Rightarrow> string \<Rightarrow> ocr_call list \<Rightarrow> (exn + string) \<times> ocr_call list" where
  "preprocess_pdf w pdf_path calls =
     (case read_bytes w pdf_path of
        Inl e \<Rightarrow> (Inl e, calls)
      | Inr content \<Rightarrow>
          (case pdf_pages w content of
             Inl e \<Rightarrow> (Inl e, calls)
           | Inr pages \<Rightarrow>
               (case extract_pages pages [] of
                  Inl e \<Rightarrow> (Inl e, calls)
                | Inr text \<Rightarrow>
                    if py_strip text = [] then ocr_pdf w pdf_path calls else (Inr text, calls))))"

definition preprocess_image :: "world \<Rightarrow> string \<Rightarrow> ocr_call list \<Rightarrow> (exn + string) \<times> ocr_call list" where
  "preprocess_image w image_path calls =
     (case read_bytes w image_path of
        Inl e \<Rightarrow> (Inl e, calls)
      | Inr content \<Rightarrow>
          (case text_detection w content of
             Inl e \<Rightarrow> (Inl e, calls @ [TextDetection content])
           | Inr text_annotations \<Rightarrow>
               (Inr (case text_annotations of [] \<Rightarrow> [] | description # _ \<Rightarrow> description),
                calls @ [TextDetection content])))"

definition preprocess_document :: "world \<Rightarrow> string \<Rightarrow> ocr_call list \<Rightarrow> (exn + string) \<times> ocr_call list" where
  "preprocess_document w file_path calls =
     (if endswith (py_lower file_path) ''.pdf'' then preprocess_pdf w file_path calls
      else if endswith (py_lower file_path) ''.png'' \<or> endswith (py_lower file_path) ''.jpg'' \<or>
              endswith (py_lower file_path) ''.jpeg''
      then preprocess_image w file_path calls
      else (read_text w file_path, calls))"

section \<open>The regular expressions of the pattern table\<close>

text \<open>
  The fragment of Python's \<open>re\<close> syntax that the pattern table uses: literals (compared
  case-insensitively, the table is always searched with \<open>re.IGNORECASE\<close>), character sets
  and classes, greedy \<open>*\<close> on a set, sequence, alternation, greedy \<open>?\<close>, and numbered
  capturing groups.  \<open>x+\<close> is \<open>xx*\<close> and \<open>x{n}\<close> is \<open>n\<close> copies of \<open>x\<close>.
\<close>

datatype cset_item = CChar char | CDigit | CWord | CSpace

datatype regex =
    Eps
  | Lit char
  | Cls "cset_item list"
  | Star "cset_item list"
  | Seq regex regex
  | Alt regex regex
  | Opt regex
  | Grp nat regex

fun item_mem :: "cset_item \<Rightarrow> char \<Rightarrow> bool" where
  "item_mem (CChar c) x = (lower_char x = lower_char c)"
| "item_mem CDigit x = is_digit x"
| "item_mem CWord x = is_word x"
| "item_mem CSpace x = is_space x"

definition cset_mem :: "cset_item list \<Rightarrow> char \<Rightarrow> bool" where
  "cset_mem cs x = list_ex (\<lambda>i. item_mem i x) cs"

text \<open>
  The backtracking matcher, as the list of its successes in the order in which backtracking
  reaches them: each success is the text left after the match and the groups captured.
  A greedy star offers the longest run first, an alternation its left branch first, a greedy
  option the match of its body before the empty match.
\<close>

fun star_rests :: "cset_item list \<Rightarrow> string \<Rightarrow> string list" where
  "star_rests cs [] = [[]]"
| "star_rests cs (x # xs) = (if cset_mem cs x then star_rests cs xs @ [x # xs] else [x # xs])"

fun ms :: "regex \<Rightarrow> string \<Rightarrow> pyval list \<Rightarrow> (string \<times> pyval list) list" where
  "ms Eps s g = [(s, g)]"
| "ms (Lit c) s g =
     (case s of [] \<Rightarrow> [] | x # xs \<Rightarrow> if lower_char x = lower_char c then [(xs, g)] else [])"
| "ms (Cls cs) s g = (case s of [] \<Rightarrow> [] | x # xs \<Rightarrow> if cset_mem cs x then [(xs, g)] else [])"
| "ms (Star cs) s g = map (\<lambda>s'. (s', g)) (star_rests cs s)"
| "ms (Seq a b) s g = concat (map (\<lambda>(s', g'). ms b s' g') (ms a s g))"
| "ms (Alt a b) s g = ms a s g @ ms b s g"
| "ms (Opt a) s g = ms a s g @ [(s, g)]"
| "ms (Grp n a) s g =
     map (\<lambda>(s', g'). (s', g'[n - 1 := Str (take (length s - length s') s)])) (ms a s g)"

fun ngroups :: "regex \<Rightarrow> nat" where
  "ngroups (Seq a b) = ngroups a + ngroups b"
| "ngroups (Alt a b) = ngroups a + ngroups b"
| "ngroups (Opt a) = ngroups a"
| "ngroups (Grp n a) = Suc (ngroups a)"
| "ngroups _ = 0"

text \<open>
  A match attempt at the start of the text: the first success, if there is one; the result is
  \<open>match.groups()\<close>, with \<open>None\<close> for a group that took no part in the match.
  \<open>re.search\<close> makes the attempt at every position from the left and stops at the first
  that succeeds.
\<close>

definition re_match :: "regex \<Rightarrow> string \<Rightarrow> pyval list option" where
  "re_match r s =
     (case ms r s (replicate (ngroups r) PyNone) of [] \<Rightarrow> None | (s', g) # _ \<Rightarrow> Some g)"

fun re_search :: "regex \<Rightarrow> string \<Rightarrow> pyval list option" where
  "re_search r [] = re_match r []"
| "re_search r (x # xs) =
     (case re_match r (x # xs) of None \<Rightarrow> re_search r xs | Some g \<Rightarrow> Some g)"

fun rests :: "regex \<Rightarrow> string \<Rightarrow> string list" where
  \<comment> \<open>the successes of \<open>ms\<close> without the groups\<close>
  "rests Eps s = [s]"
| "rests (Lit c) s = (case s of [] \<Rightarrow> [] | x # xs \<Rightarrow> if lower_char x = lower_char c then [xs] else [])"
| "rests (Cls cs) s = (case s of [] \<Rightarrow> [] | x # xs \<Rightarrow> if cset_mem cs x then [xs] else [])"
| "rests (Star cs) s = star_rests cs s"
| "rests (Seq a b) s = concat (map (rests b) (rests a s))"
| "rests (Alt a b) s = rests a s @ rests b s"
| "rests (Opt a) s = rests a s @ [s]"
| "rests (Grp n a) s = rests a s"

definition seqs :: "regex list \<Rightarrow> regex" where
  "seqs rs = foldr Seq rs Eps"

definition lit :: "string \<Rightarrow> regex" where
  "lit w = seqs (map Lit w)"

definition alts :: "regex list \<Rightarrow> regex" where
  "alts rs = foldr Alt (butlast rs) (last rs)"

definition plus :: "cset_item list \<Rightarrow> regex" where
  "plus cs = Seq (Cls cs) (Star cs)"

section \<open>Field extraction\<close>

definition label_end :: regex where
  \<comment> \<open>\<open>[.:]\<close>\<close>
  "label_end = Cls [CChar CHR ''.'', CChar CHR '':'']"

definition date_sep :: regex where
  \<comment> \<open>\<open>[./-]\<close>\<close>
  "date_sep = Cls [CChar CHR ''.'', CChar CHR ''/'', CChar CHR ''-'']"

definition date_re :: regex where
  \<comment> \<open>\<open>\d{2}[./-]\d{2}[./-]\d{4}\<close>\<close>
  "date_re = seqs [Cls [CDigit], Cls [CDigit], date_sep, Cls [CDigit], Cls [CDigit], date_sep,
                   Cls [CDigit], Cls [CDigit], Cls [CDigit], Cls [CDigit]]"

definition invoice_date_re :: regex where
  "invoice_date_re =
     seqs [Grp 1 (alts [lit ''Invoice Date'', lit ''Date'']), label_end, Star [CSpace], Grp 2 date_re]"

definition due_date_re :: regex where
  "due_date_re = seqs [lit ''Due Date'', label_end, Star [CSpace], Grp 1 date_re]"

definition patterns :: "(string \<times> regex) list" where
  "patterns = [
    (''invoice_number'',
       seqs [lit ''Invoice Number'', label_end, Star [CSpace], Grp 1 (plus [CWord])]),
    (''invoice_date'', invoice_date_re),
    (''amount_due'',
       seqs [Grp 1 (alts [lit ''Total Amount Due'', lit ''TOTAL AMOUNT DUE'', lit ''Amount'',
                          lit ''Total Invoice Amount'', lit ''Amount Tendered'', lit ''Due Amount'',
                          lit ''Current demand'', lit ''To the total due date'']),
             Opt label_end, Star [CSpace],
             Opt (alts [lit ''INR'', seqs [lit ''Rs'', Opt (Lit CHR ''.'')]]), Star [CSpace],
             Grp 2 (plus [CDigit, CChar CHR '','', CChar CHR ''.''])]),
    (''due_date'', due_date_re),
    (''account_number'',
       seqs [Grp 1 (alts [lit ''Account Number'', lit ''BUSINESS PARTNER NO.'']), label_end,
             Star [CSpace], Grp 2 (plus [CWord])]),
    (''billing_period'',
       seqs [lit ''Billing Period'', label_end, Star [CSpace],
             Grp 1 (seqs [plus [CDigit, CChar CHR ''/''], lit '' to '', plus [CDigit, CChar CHR ''/'']])]),
    (''consumer_number'',
       seqs [lit ''Consumer Number'', label_end, Star [CSpace], Grp 1 (plus [CWord])]),
    (''product'', seqs [lit ''Product'', plus [CSpace], Grp 1 (alts [lit ''PETROL'', plus [CWord]])]),
    (''quantity'',
       seqs [Grp 1 (alts [lit ''Qty'', lit ''quantity'']), plus [CSpace],
             Grp 2 (plus [CDigit, CChar CHR ''.''])]),
    (''rate'',
       seqs [Grp 1 (alts [lit ''Rate-Rs'', lit ''Price/SCM in INR'']), plus [CSpace],
             Grp 2 (plus [CDigit, CChar CHR ''.''])])
  ]"

definition NOT_FOUND :: string where
  "NOT_FOUND = ''Not found''"

definition FIELD_NAMES :: "string list" where
  "FIELD_NAMES = [''invoice_number'', ''invoice_date'', ''amount_due'', ''due_date'',
     ''account_number'', ''billing_period'', ''consumer_number'', ''product'', ''quantity'', ''rate'']"

definition initial_info :: "(string \<times> pyval) list" where
  "initial_info = map (\<lambda>k. (k, Str NOT_FOUND)) FIELD_NAMES"

text \<open>
  \<open>match.group(1) if len(match.groups()) == 1 else match.group(2)\<close>; \<open>group(2)\<close> of a
  pattern with fewer than two groups raises \<open>IndexError\<close>.
\<close>

fun select_group :: "pyval list \<Rightarrow> exn + pyval" where
  "select_group [g1] = Inr g1"
| "select_group (g1 # g2 # gs) = Inr g2"
| "select_group [] = Inl (Exn ''no such group'')"

fun match_loop ::
  "(string \<times> regex) list \<Rightarrow> string \<Rightarrow> (string \<times> pyval) list \<Rightarrow> exn + (string \<times> pyval) list" where
  "match_loop [] text info = Inr info"
| "match_loop ((key, pattern) # ps) text info =
     (case re_search pattern text of
        None \<Rightarrow> match_loop ps text info
      | Some groups \<Rightarrow>
          (case select_group groups of
             Inl e \<Rightarrow> Inl e
           | Inr v \<Rightarrow> match_loop ps text (dict_set key v info)))"

definition extracted_info :: "string \<Rightarrow> exn + (string \<times> pyval) list" where
  \<comment> \<open>the dict \<open>extracted_info\<close> of \<open>extract_information\<close> when its loop has run\<close>
  "extracted_info text = match_loop patterns text initial_info"

definition render :: "(string \<times> pyval) list \<Rightarrow> string" where
  "render info =
     py_join [NL] (map (\<lambda>(k, v). py_title (py_replace CHR ''_'' CHR '' '' k) @ '': '' @ py_str v) info)"

definition extract_information :: "string \<Rightarrow> exn + string" where
  "extract_information text =
     (case extracted_info text of Inl e \<Rightarrow> Inl e | Inr info \<Rightarrow> Inr (render info))"

section \<open>Validation\<close>

definition split_first :: "char \<Rightarrow> string \<Rightarrow> string \<times> string" where
  \<comment> \<open>\<open>line.split(sep, 1)\<close> of a line that contains \<open>sep\<close>: what is before the first
     \<open>sep\<close> and what is after it\<close>
  "split_first sep line =
     (takeWhile (\<lambda>c. c \<noteq> sep) line, drop 1 (dropWhile (\<lambda>c. c \<noteq> sep) line))"

definition snake_key :: "string \<Rightarrow> string" where
  \<comment> \<open>\<open>key.strip().lower().replace(' ', '_')\<close>\<close>
  "snake_key key = py_replace CHR '' '' CHR ''_'' (py_lower (py_strip key))"

definition validate_line :: "(string \<times> string) list \<Rightarrow> string \<Rightarrow> (string \<times> string) list" where
  \<comment> \<open>the body of the loop over the lines\<close>
  "validate_line validated_info line =
     (if CHR '':'' \<in> set line then
        (case split_first CHR '':'' line of (key, value) \<Rightarrow>
           (let key = snake_key key; value = py_strip value
            in if value \<noteq> ''Not found'' then dict_set key value validated_info
               else validated_info))
      else validated_info)"

definition validate_extracted_info :: "string \<Rightarrow> (string \<times> string) list" where
  "validate_extracted_info extracted_text = foldl validate_line [] (py_split NL extracted_text)"

text \<open>
  The direct filter that the specification (4.4) gives as the net effect of rendering and
  re-parsing: drop the entries whose value is the sentinel, keep keys and values as they are.
\<close>

definition filter_directly :: "(string \<times> pyval) list \<Rightarrow> (string \<times> string) list" where
  "filter_directly report = map (\<lambda>(k, v). (k, py_str v)) (filter (\<lambda>(k, v). v \<noteq> Str NOT_FOUND) report)"


section \<open>Presentation\<close>

text \<open>
  \<open>json.dumps(validated_info, indent=2)\<close> for a dict of strings: the members one per line,
  indented by two spaces, \<open>{}\<close> for the empty dict.  A string is written between double
  quotes; with the default \<open>ensure_ascii\<close>, only the characters from the space to the tilde
  other than the double quote and the backslash are written as they are, the others as one of
  the two-character escapes or as \<open>\u00xx\<close> with lower-case hexadecimal digits.
\<close>

definition hex_digit :: "nat \<Rightarrow> char" where
  "hex_digit n = (if n < 10 then char_of (48 + n) else char_of (87 + n))"

definition json_escape_char :: "char \<Rightarrow> string" where
  "json_escape_char c =
     (if c = CHR 0x22 then [CHR 0x5C, CHR 0x22]
      else if c = CHR 0x5C then [CHR 0x5C, CHR 0x5C]
      else if c = CHR 0x0A then [CHR 0x5C, CHR ''n'']
      else if c = CHR 0x0D then [CHR 0x5C, CHR ''r'']
      else if c = CHR 0x09 then [CHR 0x5C, CHR ''t'']
      else if c = CHR 0x08 then [CHR 0x5C, CHR ''b'']
      else if c = CHR 0x0C then [CHR 0x5C, CHR ''f'']
      else if 32 \<le> ord c \<and> ord c \<le> 126 then [c]
      else [CHR 0x5C, CHR ''u'', CHR ''0'', CHR ''0'', hex_digit (ord c div 16), hex_digit (ord c mod 16)])"

definition json_string :: "string \<Rightarrow> string" where
  "json_string s = [CHR 0x22] @ concat (map json_escape_char s) @ [CHR 0x22]"

definition json_dumps :: "(string \<times> string) list \<Rightarrow> string" where
  "json_dumps d =
     (if d = [] then ''{}''
      else ''{'' @ [NL] @ ''  '' @
           py_join ('','' @ [NL] @ ''  '') (map (\<lambda>(k, v). json_string k @ '': '' @ json_string v) d) @
           [NL] @ ''}'')"

datatype output_format = Text | JSON | CSV

definition display_results :: "output_format \<Rightarrow> (string \<times> string) list \<Rightarrow> string" where
  \<comment> \<open>the text that \<open>display_results\<close> puts into the result box\<close>
  "display_results output_format validated_info =
     (case output_format of
        Text \<Rightarrow>
          py_join [NL]
            (map (\<lambda>(k, v). py_title (py_replace CHR ''_'' CHR '' '' k) @ '': '' @ v) validated_info)
      | JSON \<Rightarrow> json_dumps validated_info
      | CSV \<Rightarrow> ''Key,Value'' @ [NL] @ py_join [NL] (map (\<lambda>(k, v). k @ '','' @ v) validated_info))"

section \<open>The extraction thread\<close>

datatype signal = UpdateProgress nat string | ExtractionComplete "(string \<times> string) list"

text \<open>
  The state of a run: the signals emitted so far and the requests made to the vision client.
  \<open>run_try\<close> is the body of the \<open>try\<close> block of \<open>ExtractionThread.run\<close>; it ends either
  normally or with the exception that one of its calls raised.  \<open>run\<close> adds the handler of
  \<open>except Exception\<close>; its own result says whether an exception leaves \<open>run\<close>.
\<close>

type_synonym run_state = "signal list \<times> ocr_call list"

definition emit :: "signal \<Rightarrow> run_state \<Rightarrow> run_state" where
  "emit sig st = (fst st @ [sig], snd st)"

definition run_try :: "world \<Rightarrow> string \<Rightarrow> run_state \<Rightarrow> (exn + unit) \<times> run_state" where
  "run_try w file_path st =
     (let st = emit (UpdateProgress 10 ''Preprocessing document...'') st in
      case preprocess_document w file_path (snd st) of
        (Inl e, calls) \<Rightarrow> (Inl e, (fst st, calls))
      | (Inr preprocessed_text, calls) \<Rightarrow>
          (let st = emit (UpdateProgress 40 ''Extracting information...'') (fst st, calls) in
           case extract_information preprocessed_text of
             Inl e \<Rightarrow> (Inl e, st)
           | Inr extracted_text \<Rightarrow>
               (let st = emit (UpdateProgress 70 ''Validating extracted information...'') st;
                    validated_info = validate_extracted_info extracted_text;
                    st = emit (UpdateProgress 100 ''Extraction complete!'') st
                in (Inr (), emit (ExtractionComplete validated_info) st))))"

definition run :: "world \<Rightarrow> string \<Rightarrow> run_state \<Rightarrow> (exn + unit) \<times> run_state" where
  "run w file_path st =
     (case run_try w file_path st of
        (Inl e, st') \<Rightarrow> (Inr (), emit (UpdateProgress 100 (''Error: '' @ message e)) st')
      | (Inr u, st') \<Rightarrow> (Inr u, st'))"

section \<open>Auxiliary definitions\<close>

text \<open>
  A reader for JSON objects whose members are strings, after the JSON grammar as
  \<open>json.loads\<close> reads it: whitespace between the tokens, the two-character escapes and
  \<open>\uXXXX\<close> inside strings, no raw control character inside a string, no comma before the
  closing brace, a later member replacing an earlier one with the same name.  It reads one
  character at a time.  It serves to state that the JSON rendering can be read back.
\<close>

datatype str_state = Plain | Escaped | Hex "nat list"

datatype str_result = Closed | Open string str_state | Bad

definition unhex :: "char \<Rightarrow> nat option" where
  "unhex c = (let n = ord c in
     if 48 \<le> n \<and> n \<le> 57 then Some (n - 48)
     else if 97 \<le> n \<and> n \<le> 102 then Some (n - 87)
     else if 65 \<le> n \<and> n \<le> 70 then Some (n - 55)
     else None)"

definition unescape :: "char \<Rightarrow> char option" where
  "unescape c =
     (if c = CHR 0x22 \<or> c = CHR 0x5C \<or> c = CHR ''/'' then Some c
      else if c = CHR ''n'' then Some (CHR 0x0A)
      else if c = CHR ''r'' then Some (CHR 0x0D)
      else if c = CHR ''t'' then Some (CHR 0x09)
      else if c = CHR ''b'' then Some (CHR 0x08)
      else if c = CHR ''f'' then Some (CHR 0x0C)
      else None)"

fun str_step :: "str_state \<Rightarrow> string \<Rightarrow> char \<Rightarrow> str_result" where
  "str_step Plain acc c =
     (if c = CHR 0x22 then Closed
      else if c = CHR 0x5C then Open acc Escaped
      else if ord c < 32 then Bad
      else Open (acc @ [c]) Plain)"
| "str_step Escaped acc c =
     (case unescape c of
        Some x \<Rightarrow> Open (acc @ [x]) Plain
      | None \<Rightarrow> if c = CHR ''u'' then Open acc (Hex []) else Bad)"
| "str_step (Hex ds) acc c =
     (case unhex c of
        None \<Rightarrow> Bad
      | Some n \<Rightarrow>
          if length ds < 3 then Open acc (Hex (ds @ [n]))
          else (let v = foldl (\<lambda>a b. a * 16 + b) 0 (ds @ [n])
                in if v < 256 then Open (acc @ [char_of v]) Plain else Bad))"

datatype json_state =
    BeforeObject
  | BeforeFirstKey
  | InKey string str_state
  | BeforeColon string
  | BeforeValue string
  | InValue string string str_state
  | AfterValue
  | BeforeKey
  | AfterObject

definition json_ws :: "char \<Rightarrow> bool" where
  "json_ws c = (c = CHR '' '' \<or> c = CHR 0x09 \<or> c = CHR 0x0A \<or> c = CHR 0x0D)"

fun json_step :: "json_state \<Rightarrow> (string \<times> string) list \<Rightarrow> char \<Rightarrow> (json_state \<times> (string \<times> string) list) option" where
  "json_step BeforeObject d c =
     (if json_ws c then Some (BeforeObject, d) else if c = CHR ''{'' then Some (BeforeFirstKey, d) else None)"
| "json_step BeforeFirstKey d c =
     (if json_ws c then Some (BeforeFirstKey, d)
      else if c = CHR ''}'' then Some (AfterObject, d)
      else if c = CHR 0x22 then Some (InKey [] Plain, d) else None)"
| "json_step (InKey acc st) d c =
     (case str_step st acc c of
        Closed \<Rightarrow> Some (BeforeColon acc, d)
      | Open acc' st' \<Rightarrow> Some (InKey acc' st', d)
      | Bad \<Rightarrow> None)"
| "json_step (BeforeColon k) d c =
     (if json_ws c then Some (BeforeColon k, d) else if c = CHR '':'' then Some (BeforeValue k, d) else None)"
| "json_step (BeforeValue k) d c =
     (if json_ws c then Some (BeforeValue k, d) else if c = CHR 0x22 then Some (InValue k [] Plain, d) else None)"
| "json_step (InValue k acc st) d c =
     (case str_step st acc c of
        Closed \<Rightarrow> Some (AfterValue, dict_set k acc d)
      | Open acc' st' \<Rightarrow> Some (InValue k acc' st', d)
      | Bad \<Rightarrow> None)"
| "json_step AfterValue d c =
     (if json_ws c then Some (AfterValue, d)
      else if c = CHR '','' then Some (BeforeKey, d)
      else if c = CHR ''}'' then Some (AfterObject, d) else None)"
| "json_step BeforeKey d c =
     (if json_ws c then Some (BeforeKey, d) else if c = CHR 0x22 then Some (InKey [] Plain, d) else None)"
| "json_step AfterObject d c = (if json_ws c then Some (AfterObject, d) else None)"

fun json_scan :: "json_state \<Rightarrow> (string \<times> string) list \<Rightarrow> string \<Rightarrow> (string \<times> string) list option" where
  "json_scan st d [] = (if st = AfterObject then Some d else None)"
| "json_scan st d (c # cs) =
     (case json_step st d c of None \<Rightarrow> None | Some (st', d') \<Rightarrow> json_scan st' d' cs)"

definition json_loads :: "string \<Rightarrow> (string \<times> string) list option" where
  "json_loads s = json_scan BeforeObject [] s"

fun str_run :: "str_state \<Rightarrow> string \<Rightarrow> string \<Rightarrow> str_result" where
  "str_run st acc [] = Open acc st"
| "str_run st acc (c # cs) =
     (case str_step st acc c of Open acc' st' \<Rightarrow> str_run st' acc' cs | Closed \<Rightarrow> Closed | Bad \<Rightarrow> Bad)"


definition json_member :: "string \<times> string \<Rightarrow> string" where
  "json_member kv = json_string (fst kv) @ '': '' @ json_string (snd kv)"


text \<open>What validation makes of the report of the example bill.\<close>

definition example_validated :: "(string \<times> string) list" where
  "example_validated =
     [(''invoice_number'', ''INV123''), (''invoice_date'', ''01/02/2024''),
      (''amount_due'', ''1,234.50''), (''due_date'', ''01/02/2024'')]"


text \<open>Three small worlds: a PDF with two pages of text, a PDF with blank pages, no files.\<close>

definition two_page_world :: world where
  "two_page_world = \<lparr>
     read_bytes = (\<lambda>path. Inr ''%PDF-1.4''),
     read_text = (\<lambda>path. Inr []),
     pdf_pages = (\<lambda>content. Inr [Inr ''Invoice Number: 7'', Inr ''Due Date: 01/02/2024'']),
     document_text_detection = (\<lambda>content. Inr ''scanned''),
     text_detection = (\<lambda>content. Inr []) \<rparr>"

definition blank_page_world :: world where
  "blank_page_world = \<lparr>
     read_bytes = (\<lambda>path. Inr ''%PDF-1.4''),
     read_text = (\<lambda>path. Inr []),
     pdf_pages = (\<lambda>content. Inr [Inr '' '', Inr []]),
     document_text_detection = (\<lambda>content. Inr ''scanned''),
     text_detection = (\<lambda>content. Inr []) \<rparr>"

definition missing_file_world :: world where
  "missing_file_world = \<lparr>
     read_bytes = (\<lambda>path. Inl (Exn ''No such file or directory'')),
     read_text = (\<lambda>path. Inl (Exn ''No such file or directory'')),
     pdf_pages = (\<lambda>content. Inr []),
     document_text_detection = (\<lambda>content. Inr []),
     text_detection = (\<lambda>content. Inr []) \<rparr>"

definition render_key :: "string \<Rightarrow> string" where
  \<comment> \<open>the key of a rendered line\<close>
  "render_key k = py_title (py_replace CHR ''_'' CHR '' '' k)"


definition report_with_padded_value :: "(string \<times> pyval) list" where
  "report_with_padded_value = zip FIELD_NAMES (map Str
     ['' x'', NOT_FOUND, NOT_FOUND, NOT_FOUND, NOT_FOUND, NOT_FOUND, NOT_FOUND, NOT_FOUND,
      NOT_FOUND, NOT_FOUND])"


definition example_bill :: string where
  "example_bill =
     ''Invoice Number: INV123'' @ [NL] @ ''Total Amount Due: Rs. 1,234.50'' @ [NL] @ ''Due Date: 01/02/2024''"

fun selected :: "pyval list \<Rightarrow> pyval" where
  \<comment> \<open>the value \<open>select_group\<close> returns when it returns\<close>
  "selected [g1] = g1"
| "selected (g1 # g2 # gs) = g2"
| "selected [] = PyNone"

definition ci_prefix :: "string \<Rightarrow> string \<Rightarrow> bool" where
  \<comment> \<open>\<open>s\<close> starts with \<open>w\<close>, up to case\<close>
  "ci_prefix w s = (length w \<le> length s \<and> map lower_char (take (length w) s) = map lower_char w)"

section \<open>Evaluation of the character tests\<close>

lemma is_digit_code [code]:
  "is_digit (Char b0 b1 b2 b3 b4 b5 b6 b7) =
     (\<not> b7 \<and> \<not> b6 \<and> b5 \<and> b4 \<and> (\<not> b3 \<or> (\<not> b2 \<and> \<not> b1)))"
  unfolding is_digit_def ord_def Let_def
  by (cases b0; cases b1; cases b2; cases b3; cases b4; cases b5; cases b6; cases b7; simp)

lemma is_space_code [code]:
  "is_space (Char b0 b1 b2 b3 b4 b5 b6 b7) =
     (if b7 then \<not> b6 \<and> \<not> b4 \<and> \<not> b3 \<and> \<not> b1 \<and> ((b5 \<and> \<not> b2 \<and> \<not> b0) \<or> (\<not> b5 \<and> b2 \<and> b0))
      else \<not> b6 \<and> (if b5 then \<not> b4 \<and> \<not> b3 \<and> \<not> b2 \<and> \<not> b1 \<and> \<not> b0
                   else if b4 then b3 \<and> b2
                   else b3 \<and> ((\<not> b2 \<and> (b1 \<or> b0)) \<or> (b2 \<and> \<not> b1))))"
  unfolding is_space_def ord_def Let_def
  by (cases b0; cases b1; cases b2; cases b3; cases b4; cases b5; cases b6; cases b7; simp)

lemma lower_char_code [code]:
  "lower_char (Char b0 b1 b2 b3 b4 b5 b6 b7) =
     (if b6 \<and> \<not> b5 \<and> (if b7 then \<not> (b4 \<and> b2 \<and> b1 \<and> b0)
                         else (b0 \<or> b1 \<or> b2 \<or> b3 \<or> b4) \<and> \<not> (b4 \<and> b3 \<and> (b2 \<or> (b1 \<and> b0))))
      then Char b0 b1 b2 b3 b4 True b6 b7 else Char b0 b1 b2 b3 b4 b5 b6 b7)"
  unfolding lower_char_def ord_def Let_def
  by (cases b0; cases b1; cases b2; cases b3; cases b4; cases b5; cases b6; cases b7;
      simp add: char_of_def bit_Suc_0_iff)

lemma is_word_code [code]:
  "is_word (Char b0 b1 b2 b3 b4 b5 b6 b7) =
     (if b7 then
        (if b6 then \<not> (b4 \<and> \<not> b3 \<and> b2 \<and> b1 \<and> b0)
         else b5 \<and> ((\<not> b4 \<and> b3 \<and> \<not> b2 \<and> b1 \<and> \<not> b0) \<or>
                    (b4 \<and> ((\<not> b3 \<and> ((\<not> b2 \<and> b1) \<or> (b2 \<and> \<not> b1 \<and> b0))) \<or>
                           (b3 \<and> ((\<not> b2 \<and> (b1 \<noteq> b0)) \<or> (b2 \<and> \<not> (b1 \<and> b0))))))))
      else if b6 then
        ((b0 \<or> b1 \<or> b2 \<or> b3 \<or> b4) \<and> \<not> (b4 \<and> b3 \<and> (b2 \<or> (b1 \<and> b0)))) \<or>
        (\<not> b5 \<and> b4 \<and> b3 \<and> b2 \<and> b1 \<and> b0)
      else b5 \<and> b4 \<and> (\<not> b3 \<or> (\<not> b2 \<and> \<not> b1)))"
  unfolding is_word_def ord_def Let_def
  by (cases b0; cases b1; cases b2; cases b3; cases b4; cases b5; cases b6; cases b7; simp)

section \<open>The match loop\<close>

lemma ms_length: "(s', g') \<in> set (ms r s g) \<Longrightarrow> length g' = length g"
  by (induction r arbitrary: s g s' g') (auto split: list.splits if_splits)

lemma re_match_length: "re_match r s = Some g \<Longrightarrow> length g = ngroups r"
proof -
  assume "re_match r s = Some g"
  then obtain s' where "(s', g) \<in> set (ms r s (replicate (ngroups r) PyNone))"
    by (auto simp: re_match_def split: list.splits)
  then show ?thesis using ms_length by fastforce
qed

lemma re_search_length: "re_search r s = Some g \<Longrightarrow> length g = ngroups r"
  by (induction s) (auto split: option.splits dest: re_match_length)

lemma patterns_ngroups: "(k, p) \<in> set patterns \<Longrightarrow> ngroups p = 1 \<or> ngroups p = 2"
  by (auto simp: patterns_def seqs_def alts_def lit_def plus_def label_end_def date_re_def
      date_sep_def invoice_date_re_def due_date_re_def)

lemma patterns_keys: "map fst patterns = FIELD_NAMES"
  by (simp add: patterns_def FIELD_NAMES_def)

lemma initial_info_keys: "map fst initial_info = FIELD_NAMES"
  by (simp add: initial_info_def comp_def)

lemma distinct_FIELD_NAMES: "distinct FIELD_NAMES"
  by (simp add: FIELD_NAMES_def)

lemma select_group_ok: "g \<noteq> [] \<Longrightarrow> select_group g = Inr (selected g)"
  by (cases g rule: select_group.cases) auto

lemma dict_set_keys: "k \<in> fst ` set d \<Longrightarrow> map fst (dict_set k v d) = map fst d"
  by (induction d) force+

lemma dict_get_set: "dict_get (dict_set k v d) k' = (if k' = k then Some v else dict_get d k')"
  by (induction d) (auto simp: dict_get_def)

lemma match_loop_result:
  assumes "\<forall>(k, p) \<in> set ps. ngroups p \<noteq> 0" and "fst ` set ps \<subseteq> fst ` set info"
    and "distinct (map fst ps)"
  shows "\<exists>info'. match_loop ps text info = Inr info' \<and> map fst info' = map fst info \<and>
    (\<forall>k. dict_get info' k =
       (case map_of ps k of
          None \<Rightarrow> dict_get info k
        | Some p \<Rightarrow> (case re_search p text of
                       None \<Rightarrow> dict_get info k
                     | Some g \<Rightarrow> Some (selected g))))"
  using assms
proof (induction ps arbitrary: info)
  case Nil
  then show ?case by simp
next
  case (Cons kp ps)
  obtain key pattern where kp: "kp = (key, pattern)" by (cases kp)
  from Cons.prems kp have ng: "ngroups pattern \<noteq> 0" and key: "key \<in> fst ` set info"
    and rest: "\<forall>(k, p) \<in> set ps. ngroups p \<noteq> 0" "fst ` set ps \<subseteq> fst ` set info"
      "distinct (map fst ps)" and fresh: "key \<notin> fst ` set ps"
    by auto
  have fresh': "map_of ps key = None"
    using fresh by (simp add: map_of_eq_None_iff)
  show ?case
  proof (cases "re_search pattern text")
    case None
    from Cons.IH [OF rest] obtain info' where
      "match_loop ps text info = Inr info'" "map fst info' = map fst info"
      "\<forall>k. dict_get info' k = (case map_of ps k of None \<Rightarrow> dict_get info k
          | Some p \<Rightarrow> (case re_search p text of None \<Rightarrow> dict_get info k | Some g \<Rightarrow> Some (selected g)))"
      by blast
    with None kp fresh' show ?thesis by auto
  next
    case (Some g)
    then have "length g = ngroups pattern" by (rule re_search_length)
    with ng have sel: "select_group g = Inr (selected g)"
      by (intro select_group_ok) auto
    let ?info = "dict_set key (selected g) info"
    have keys: "map fst ?info = map fst info"
      using key by (rule dict_set_keys)
    then have "fst ` set ps \<subseteq> fst ` set ?info"
      using rest(2) by (metis list.set_map)
    from Cons.IH [OF rest(1) this rest(3)] obtain info' where
      "match_loop ps text ?info = Inr info'" "map fst info' = map fst ?info"
      "\<forall>k. dict_get info' k = (case map_of ps k of None \<Rightarrow> dict_get ?info k
          | Some p \<Rightarrow> (case re_search p text of None \<Rightarrow> dict_get ?info k | Some g \<Rightarrow> Some (selected g)))"
      by blast
    with Some sel kp fresh' keys show ?thesis
      by (auto simp: dict_get_set split: option.splits)
  qed
qed

lemma extracted_info_result:
  "\<exists>info. extracted_info text = Inr info \<and> map fst info = FIELD_NAMES \<and>
    (\<forall>k. dict_get info k =
       (case map_of patterns k of
          None \<Rightarrow> dict_get initial_info k
        | Some p \<Rightarrow> (case re_search p text of
                       None \<Rightarrow> dict_get initial_info k
                     | Some g \<Rightarrow> Some (selected g))))"
proof -
  have a: "\<forall>(k, p) \<in> set patterns. ngroups p \<noteq> 0"
    using patterns_ngroups by fastforce
  have b: "fst ` set patterns \<subseteq> fst ` set initial_info"
    using patterns_keys initial_info_keys by (metis list.set_map order_refl)
  have c: "distinct (map fst patterns)"
    by (simp add: patterns_keys distinct_FIELD_NAMES)
  show ?thesis
    unfolding extracted_info_def
    using match_loop_result [OF a b c, of "text"] by (simp add: initial_info_keys)
qed

lemma initial_info_get: "k \<in> set FIELD_NAMES \<Longrightarrow> dict_get initial_info k = Some (Str NOT_FOUND)"
  by (auto simp: initial_info_def dict_get_def map_of_map_restrict)

lemma extracted_info_example:
  "extracted_info example_bill = Inr
     [(''invoice_number'', Str ''INV123''), (''invoice_date'', Str ''01/02/2024''),
      (''amount_due'', Str ''1,234.50''), (''due_date'', Str ''01/02/2024''),
      (''account_number'', Str ''Not found''), (''billing_period'', Str ''Not found''),
      (''consumer_number'', Str ''Not found''), (''product'', Str ''Not found''),
      (''quantity'', Str ''Not found''), (''rate'', Str ''Not found'')]"
  by code_simp

lemma re_search_due_date_example:
  "re_search due_date_re ''Due Date: 01/02/2024'' = Some [Str ''01/02/2024'']"
  by code_simp

section \<open>First matches of the two date patterns\<close>

lemma ms_rests: "map fst (ms r s g) = rests r s"
proof (induction r arbitrary: s g)
  case (Seq a b)
  have "map fst (ms (Seq a b) s g) = concat (map (\<lambda>(s', g'). map fst (ms b s' g')) (ms a s g))"
    by (simp add: map_concat comp_def case_prod_unfold)
  also have "\<dots> = concat (map (\<lambda>(s', g'). rests b s') (ms a s g))"
    by (simp add: Seq.IH(2))
  also have "\<dots> = concat (map (rests b) (map fst (ms a s g)))"
    by (simp add: comp_def case_prod_unfold)
  finally show ?case by (simp add: Seq.IH(1))
qed (auto split: list.splits simp: comp_def case_prod_unfold)

lemma re_match_None_iff: "re_match r s = None \<longleftrightarrow> rests r s = []"
proof -
  have "re_match r s = None \<longleftrightarrow> ms r s (replicate (ngroups r) PyNone) = []"
    by (auto simp: re_match_def split: list.splits)
  also have "\<dots> \<longleftrightarrow> map fst (ms r s (replicate (ngroups r) PyNone)) = []"
    by simp
  finally show ?thesis by (simp only: ms_rests)
qed

lemma re_search_skip:
  "(\<forall>i<length pre. re_match r (drop i (pre @ s)) = None) \<Longrightarrow> re_search r (pre @ s) = re_search r s"
proof (induction pre)
  case Nil
  then show ?case by simp
next
  case (Cons x pre)
  from Cons.prems have "re_match r (x # pre @ s) = None"
    by force
  moreover have "\<forall>i<length pre. re_match r (drop i (pre @ s)) = None"
  proof (intro allI impI)
    fix i assume "i < length pre"
    then have "Suc i < length (x # pre)" by simp
    with Cons.prems have "re_match r (drop (Suc i) ((x # pre) @ s)) = None" by blast
    then show "re_match r (drop i (pre @ s)) = None" by simp
  qed
  ultimately show ?case using Cons.IH by simp
qed

lemma digit_not_space: "is_digit c \<Longrightarrow> \<not> is_space c"
  by (auto simp: is_digit_def is_space_def Let_def)

lemmas re_defs = invoice_date_re_def due_date_re_def seqs_def alts_def lit_def label_end_def
  date_re_def date_sep_def cset_mem_def

lemma rests_lit: "rests (lit w) s = (if ci_prefix w s then [drop (length w) s] else [])"
proof (induction w arbitrary: s)
  case Nil
  then show ?case by (simp add: lit_def seqs_def ci_prefix_def)
next
  case (Cons c w)
  have unfold: "lit (c # w) = Seq (Lit c) (lit w)"
    by (simp add: lit_def seqs_def)
  show ?case
  proof (cases s)
    case Nil
    then show ?thesis by (simp add: unfold ci_prefix_def)
  next
    case (Cons x xs)
    then show ?thesis
      using Cons.IH [of xs] by (auto simp: unfold ci_prefix_def)
  qed
qed

lemma ci_prefix_due_date: "ci_prefix ''Due Date'' s \<Longrightarrow> ci_prefix ''Date'' (drop 4 s)"
proof -
  assume a: "ci_prefix ''Due Date'' s"
  have l8: "length ''Due Date'' = 8" and l4: "length ''Date'' = 4"
    by simp_all
  from a have len: "8 \<le> length s" and eq: "map lower_char (take 8 s) = map lower_char ''Due Date''"
    unfolding ci_prefix_def l8 by blast+
  have "take 4 (drop 4 s) = drop 4 (take 8 s)"
    by (simp add: drop_take)
  then have "map lower_char (take 4 (drop 4 s)) = drop 4 (map lower_char (take 8 s))"
    by (simp add: drop_map)
  also have "\<dots> = map lower_char ''Date''"
    unfolding eq by simp
  finally show ?thesis
    unfolding ci_prefix_def l4 using len by simp
qed

lemma rests_Seq_fun: "rests (Seq a b) = (\<lambda>s. concat (map (rests b) (rests a s)))"
  by (rule ext) simp

lemma rests_Grp_fun: "rests (Grp n a) = rests a"
  by (rule ext) simp

lemma due_match_gives_inv_match:
  assumes "re_match due_date_re s \<noteq> None"
  shows "re_match invoice_date_re (drop 4 s) \<noteq> None"
proof -
  let ?tail = "seqs [label_end, Star [CSpace], date_re]"
  have tail: "rests (seqs [label_end, Star [CSpace], Grp n date_re]) = rests ?tail" for n
    by (simp add: seqs_def rests_Seq_fun rests_Grp_fun)
  have "rests due_date_re s =
      concat (map (rests (seqs [label_end, Star [CSpace], Grp 1 date_re])) (rests (lit ''Due Date'') s))"
    by (simp add: due_date_re_def seqs_def)
  then have due: "rests due_date_re s = concat (map (rests ?tail) (rests (lit ''Due Date'') s))"
    by (simp only: tail)
  have "rests invoice_date_re t =
      concat (map (rests (seqs [label_end, Star [CSpace], Grp 2 date_re]))
        (rests (lit ''Invoice Date'') t @ rests (lit ''Date'') t))" for t
    by (simp add: invoice_date_re_def seqs_def alts_def)
  then have inv: "rests invoice_date_re t =
      concat (map (rests ?tail) (rests (lit ''Invoice Date'') t @ rests (lit ''Date'') t))" for t
    by (simp only: tail)
  have l8: "length ''Due Date'' = 8" and l4: "length ''Date'' = 4"
    by simp_all
  from assms have ne: "rests due_date_re s \<noteq> []"
    by (simp add: re_match_None_iff)
  with due have p: "ci_prefix ''Due Date'' s" and tl: "rests ?tail (drop 8 s) \<noteq> []"
    unfolding rests_lit l8 by (auto split: if_splits)
  from p have "ci_prefix ''Date'' (drop 4 s)"
    by (rule ci_prefix_due_date)
  then have "rests (lit ''Date'') (drop 4 s) = [drop 8 s]"
    unfolding rests_lit l4 by simp
  with tl have "rests invoice_date_re (drop 4 s) \<noteq> []"
    unfolding inv by simp
  then show ?thesis
    by (simp add: re_match_None_iff)
qed

lemma inv_no_match_offsets:
  assumes "k < 4"
  shows "re_match invoice_date_re (drop k (''Due Date: '' @ rest)) = None"
proof -
  from assms have "k = 0 \<or> k = 1 \<or> k = 2 \<or> k = 3"
    by arith
  then show ?thesis
    by (elim disjE) (simp_all add: re_match_def re_defs lower_char_code)
qed


lemma inv_search_due_line:
  assumes "is_digit d1" "is_digit d2" "is_digit d3" "is_digit d4" "is_digit d5" "is_digit d6" "is_digit d7" "is_digit d8"
  shows "re_search invoice_date_re (''Due Date: '' @ [d1, d2, CHR ''/'', d3, d4, CHR ''/'', d5, d6, d7, d8] @ post)
     = Some [Str ''Date'', Str [d1, d2, CHR ''/'', d3, d4, CHR ''/'', d5, d6, d7, d8]]"
  using assms
  by (simp add: re_match_def re_defs digit_not_space lower_char_code is_digit_code is_space_code)


lemma due_search_due_line:
  assumes "is_digit d1" "is_digit d2" "is_digit d3" "is_digit d4" "is_digit d5" "is_digit d6" "is_digit d7" "is_digit d8"
  shows "re_search due_date_re (''Due Date: '' @ [d1, d2, CHR ''/'', d3, d4, CHR ''/'', d5, d6, d7, d8] @ post)
     = Some [Str [d1, d2, CHR ''/'', d3, d4, CHR ''/'', d5, d6, d7, d8]]"
  using assms
  by (simp add: re_match_def re_defs digit_not_space lower_char_code is_digit_code is_space_code)


lemma map_of_patterns_dates:
  "map_of patterns ''invoice_date'' = Some invoice_date_re"
  "map_of patterns ''due_date'' = Some due_date_re"
  by (simp_all add: patterns_def)

section \<open>Claims about field extraction\<close>

text \<open>
  C1 (as amended).  On the example bill of the specification, extraction gives
  \<open>invoice_number = "INV123"\<close>, \<open>amount_due = "1,234.50"\<close> and \<open>due_date = "01/02/2024"\<close>,
  and also \<open>invoice_date = "01/02/2024"\<close>: the \<open>Date\<close> alternative of the invoice-date
  pattern matches inside \<open>Due Date\<close>.  The other six fields are \<open>"Not found"\<close>.
\<close>

theorem example_bill_extraction:
  "extracted_info example_bill = Inr
     [(''invoice_number'', Str ''INV123''), (''invoice_date'', Str ''01/02/2024''),
      (''amount_due'', Str ''1,234.50''), (''due_date'', Str ''01/02/2024''),
      (''account_number'', Str NOT_FOUND), (''billing_period'', Str NOT_FOUND),
      (''consumer_number'', Str NOT_FOUND), (''product'', Str NOT_FOUND),
      (''quantity'', Str NOT_FOUND), (''rate'', Str NOT_FOUND)]"
  by (simp add: extracted_info_example NOT_FOUND_def)

text \<open>
  C1 as stated fails: on the example bill the report is not the one with \<open>invoice_date\<close>
  (and the six unmatched fields) equal to \<open>"Not found"\<close>.
\<close>

theorem example_bill_invoice_date_not_sentinel:
  "extracted_info example_bill \<noteq> Inr
     [(''invoice_number'', Str ''INV123''), (''invoice_date'', Str NOT_FOUND),
      (''amount_due'', Str ''1,234.50''), (''due_date'', Str ''01/02/2024''),
      (''account_number'', Str NOT_FOUND), (''billing_period'', Str NOT_FOUND),
      (''consumer_number'', Str NOT_FOUND), (''product'', Str NOT_FOUND),
      (''quantity'', Str NOT_FOUND), (''rate'', Str NOT_FOUND)]"
  by (simp add: extracted_info_example NOT_FOUND_def)

text \<open>
  C3.  For every text and every entry of the pattern table, extraction returns a report in
  which the field is \<open>"Not found"\<close> when the pattern has no match in the text, and otherwise
  is capture group 1 of the first match when the pattern has exactly one group and capture
  group 2 when it has two.
\<close>

theorem field_value_is_selected_group:
  assumes "(k, p) \<in> set patterns"
  shows "\<exists>info. extracted_info text = Inr info \<and>
    (case re_search p text of
       None \<Rightarrow> dict_get info k = Some (Str NOT_FOUND)
     | Some g \<Rightarrow>
         (ngroups p = 1 \<and> length g = 1 \<and> dict_get info k = Some (g ! 0)) \<or>
         (ngroups p = 2 \<and> length g = 2 \<and> dict_get info k = Some (g ! 1)))"
proof -
  from extracted_info_result [of "text"] obtain info where
    info: "extracted_info text = Inr info" and
    get: "\<And>k. dict_get info k =
       (case map_of patterns k of
          None \<Rightarrow> dict_get initial_info k
        | Some p \<Rightarrow> (case re_search p text of
                       None \<Rightarrow> dict_get initial_info k
                     | Some g \<Rightarrow> Some (selected g)))"
    by blast
  have "distinct (map fst patterns)"
    by (simp add: patterns_keys distinct_FIELD_NAMES)
  with assms have p: "map_of patterns k = Some p"
    by simp
  from assms have "k \<in> set FIELD_NAMES"
    using patterns_keys by (metis fst_conv image_eqI list.set_map)
  then have init: "dict_get initial_info k = Some (Str NOT_FOUND)"
    by (rule initial_info_get)
  show ?thesis
  proof (cases "re_search p text")
    case None
    with info get [of k] p init show ?thesis by simp
  next
    case (Some g)
    then have len: "length g = ngroups p"
      by (rule re_search_length)
    from patterns_ngroups [OF assms] show ?thesis
    proof
      assume one: "ngroups p = 1"
      with len obtain g1 where "g = [g1]"
        by (cases g) auto
      with info get [of k] p Some one show ?thesis by simp
    next
      assume two: "ngroups p = 2"
      with len obtain g1 g2 where "g = [g1, g2]"
        by (cases g; cases "tl g") auto
      with info get [of k] p Some two show ?thesis by simp
    qed
  qed
qed

theorem field_value_is_selected_group_witness:
  "(''due_date'', due_date_re) \<in> set patterns \<and>
   re_search due_date_re ''Due Date: 01/02/2024'' = Some [Str ''01/02/2024''] \<and>
   (case extracted_info ''Due Date: 01/02/2024'' of
      Inl e \<Rightarrow> False
    | Inr info \<Rightarrow> dict_get info ''due_date'' = Some (Str ''01/02/2024''))"
proof -
  have mem: "(''due_date'', due_date_re) \<in> set patterns"
    by (simp add: patterns_def)
  from field_value_is_selected_group [OF mem, of "''Due Date: 01/02/2024''"]
  obtain info where info: "extracted_info ''Due Date: 01/02/2024'' = Inr info"
    and sel: "case re_search due_date_re ''Due Date: 01/02/2024'' of
       None \<Rightarrow> dict_get info ''due_date'' = Some (Str NOT_FOUND)
     | Some g \<Rightarrow>
         (ngroups due_date_re = 1 \<and> length g = 1 \<and> dict_get info ''due_date'' = Some (g ! 0)) \<or>
         (ngroups due_date_re = 2 \<and> length g = 2 \<and> dict_get info ''due_date'' = Some (g ! 1))"
    by blast
  from sel have "dict_get info ''due_date'' = Some (Str ''01/02/2024'')"
    unfolding re_search_due_date_example by simp
  with mem info show ?thesis
    unfolding re_search_due_date_example by simp
qed

text \<open>
  C5.  For every text, extraction returns a report whose keys are exactly the ten field
  names, each once, in the declared order.
\<close>

theorem extracted_info_has_the_ten_keys:
  "\<exists>info. extracted_info text = Inr info \<and> distinct (map fst info) \<and>
     map fst info = [''invoice_number'', ''invoice_date'', ''amount_due'', ''due_date'',
       ''account_number'', ''billing_period'', ''consumer_number'', ''product'', ''quantity'',
       ''rate'']"
proof -
  from extracted_info_result [of "text"] obtain info where
    "extracted_info text = Inr info" "map fst info = FIELD_NAMES"
    by blast
  then show ?thesis
    using distinct_FIELD_NAMES by (auto simp: FIELD_NAMES_def)
qed

text \<open>
  C9.  When the text contains \<open>Due Date: \<close> followed by a date of two digits, a slash, two
  digits, a slash and four digits, and the invoice-date pattern matches at no position before
  that \<open>Due Date\<close>, extraction sets both \<open>invoice_date\<close> and \<open>due_date\<close> to that date.
\<close>

theorem due_date_line_sets_invoice_date:
  assumes digits: "is_digit d1" "is_digit d2" "is_digit d3" "is_digit d4"
      "is_digit d5" "is_digit d6" "is_digit d7" "is_digit d8"
    and date: "date = [d1, d2, CHR ''/'', d3, d4, CHR ''/'', d5, d6, d7, d8]"
    and shape: "text = pre @ ''Due Date: '' @ date @ post"
    and no_earlier: "\<forall>i<length pre. re_match invoice_date_re (drop i text) = None"
  shows "\<exists>info. extracted_info text = Inr info \<and>
    dict_get info ''invoice_date'' = Some (Str date) \<and>
    dict_get info ''due_date'' = Some (Str date)"
proof -
  let ?line = "''Due Date: '' @ date @ post"
  have inv: "re_search invoice_date_re text = Some [Str ''Date'', Str date]"
  proof -
    have "re_search invoice_date_re (pre @ ?line) = re_search invoice_date_re ?line"
      using no_earlier unfolding shape by (rule re_search_skip)
    also have "\<dots> = Some [Str ''Date'', Str date]"
      unfolding date using digits by (rule inv_search_due_line)
    finally show ?thesis unfolding shape .
  qed
  have no_due: "\<forall>i<length pre. re_match due_date_re (drop i (pre @ ?line)) = None"
  proof (intro allI impI, rule ccontr)
    fix i assume i: "i < length pre" and d: "re_match due_date_re (drop i (pre @ ?line)) \<noteq> None"
    from d have "re_match invoice_date_re (drop 4 (drop i (pre @ ?line))) \<noteq> None"
      by (rule due_match_gives_inv_match)
    then have m: "re_match invoice_date_re (drop (4 + i) (pre @ ?line)) \<noteq> None"
      unfolding drop_drop .
    show False
    proof (cases "4 + i < length pre")
      case True
      from no_earlier [unfolded shape, rule_format, OF True] m show False
        by (rule notE [rotated])
    next
      case False
      with i have k: "4 + i - length pre < 4" by arith
      from False have eq: "drop (4 + i) (pre @ l) = drop (4 + i - length pre) l" for l :: string
        by simp
      from m have "re_match invoice_date_re (drop (4 + i - length pre) ?line) \<noteq> None"
        unfolding eq .
      from this inv_no_match_offsets [OF k, of "date @ post"] show False
        by (rule notE)
    qed
  qed
  have due: "re_search due_date_re text = Some [Str date]"
  proof -
    have "re_search due_date_re (pre @ ?line) = re_search due_date_re ?line"
      using no_due by (rule re_search_skip)
    also have "\<dots> = Some [Str date]"
      unfolding date using digits by (rule due_search_due_line)
    finally show ?thesis unfolding shape .
  qed
  from extracted_info_result [of "text"] obtain info where
    info: "extracted_info text = Inr info" and
    get: "\<And>k. dict_get info k =
       (case map_of patterns k of
          None \<Rightarrow> dict_get initial_info k
        | Some p \<Rightarrow> (case re_search p text of
                       None \<Rightarrow> dict_get initial_info k
                     | Some g \<Rightarrow> Some (selected g)))"
    by blast
  have "dict_get info ''invoice_date'' = Some (Str date)"
    by (simp only: get map_of_patterns_dates inv option.case selected.simps)
  moreover have "dict_get info ''due_date'' = Some (Str date)"
    by (simp only: get map_of_patterns_dates due option.case selected.simps)
  ultimately show ?thesis using info by blast
qed

theorem due_date_line_sets_invoice_date_witness:
  "is_digit CHR ''0'' \<and> is_digit CHR ''1'' \<and> is_digit CHR ''2'' \<and> is_digit CHR ''4'' \<and>
   list_all (\<lambda>i. re_match invoice_date_re (drop i ''Pay by Due Date: 01/02/2024.'') = None)
     [0..<length ''Pay by ''] \<and>
   (\<exists>info. extracted_info ''Pay by Due Date: 01/02/2024.'' = Inr info \<and>
      dict_get info ''invoice_date'' = Some (Str ''01/02/2024'') \<and>
      dict_get info ''due_date'' = Some (Str ''01/02/2024''))"
proof -
  have d: "is_digit CHR ''0''" "is_digit CHR ''1''" "is_digit CHR ''2''" "is_digit CHR ''4''"
    by (simp_all add: is_digit_code)
  have none: "\<forall>i<length ''Pay by ''. re_match invoice_date_re (drop i ''Pay by Due Date: 01/02/2024.'') = None"
  proof (intro allI impI)
    fix i :: nat assume "i < length ''Pay by ''"
    then have "i = 0 \<or> i = 1 \<or> i = 2 \<or> i = 3 \<or> i = 4 \<or> i = 5 \<or> i = 6"
      by simp arith
    then show "re_match invoice_date_re (drop i ''Pay by Due Date: 01/02/2024.'') = None"
      by (elim disjE) (simp_all add: re_match_def re_defs lower_char_code)
  qed
  have shape: "''Pay by Due Date: 01/02/2024.'' = ''Pay by '' @ ''Due Date: '' @ ''01/02/2024'' @ ''.''"
    by simp
  have date: "''01/02/2024'' = [CHR ''0'', CHR ''1'', CHR ''/'', CHR ''0'', CHR ''2'', CHR ''/'', CHR ''2'', CHR ''0'', CHR ''2'', CHR ''4'']"
    by simp
  note inst = due_date_line_sets_invoice_date
    [of "CHR ''0''" "CHR ''1''" "CHR ''0''" "CHR ''2''" "CHR ''2''" "CHR ''0''" "CHR ''2''" "CHR ''4''"
        "''01/02/2024''" "''Pay by Due Date: 01/02/2024.''" "''Pay by ''" "''.''",
     OF d(1) d(2) d(1) d(3) d(3) d(1) d(3) d(4) date shape none]
  have "list_all (\<lambda>i. re_match invoice_date_re (drop i ''Pay by Due Date: 01/02/2024.'') = None)
     [0..<length ''Pay by '']"
    unfolding list_all_iff
  proof
    fix i assume "i \<in> set [0..<length ''Pay by '']"
    then have "i < length ''Pay by ''"
      by (simp only: set_upt atLeastLessThan_iff)
    then show "re_match invoice_date_re (drop i ''Pay by Due Date: 01/02/2024.'') = None"
      by (rule none [rule_format])
  qed
  with d inst show ?thesis
    by (intro conjI)
qed

section \<open>The validator\<close>

lemma py_split_no_sep: "sep \<notin> set l \<Longrightarrow> py_split sep l = [l]"
  by (induction l) auto

lemma py_split_line: "sep \<notin> set l \<Longrightarrow> py_split sep (l @ sep # rest) = l # py_split sep rest"
  by (induction l) auto

lemma py_split_join:
  "ls \<noteq> [] \<Longrightarrow> \<forall>l\<in>set ls. sep \<notin> set l \<Longrightarrow> py_split sep (py_join [sep] ls) = ls"
proof (induction ls)
  case Nil
  then show ?case by simp
next
  case (Cons l ls)
  show ?case
  proof (cases ls)
    case Nil
    with Cons.prems show ?thesis by (simp add: py_split_no_sep)
  next
    case (Cons m ms)
    with Cons.IH Cons.prems show ?thesis by (simp add: py_split_line)
  qed
qed

lemma split_first_at: "sep \<notin> set k \<Longrightarrow> split_first sep (k @ sep # v) = (k, v)"
  by (induction k) (auto simp: split_first_def)

lemma py_strip_space_Cons: "is_space c \<Longrightarrow> py_strip (c # s) = py_strip s"
  by (simp add: py_strip_def)

lemma filter_dropWhile: "(\<And>c. P c \<Longrightarrow> \<not> Q c) \<Longrightarrow> filter P (dropWhile Q s) = filter P s"
  by (induction s) auto

lemma filter_py_strip:
  assumes "\<And>c. P c \<Longrightarrow> \<not> is_space c"
  shows "filter P (py_strip s) = filter P s"
proof -
  have "filter P (py_strip s) = rev (filter P (dropWhile is_space (rev (dropWhile is_space s))))"
    by (simp add: py_strip_def rev_filter)
  also have "\<dots> = rev (filter P (rev (dropWhile is_space s)))"
    using assms by (simp add: filter_dropWhile)
  also have "\<dots> = filter P (dropWhile is_space s)"
    by (simp add: rev_filter)
  also have "\<dots> = filter P s"
    using assms by (simp add: filter_dropWhile)
  finally show ?thesis .
qed

lemma dict_set_fresh: "k \<notin> fst ` set d \<Longrightarrow> dict_set k v d = d @ [(k, v)]"
  by (induction d) auto

lemma validate_line_no_colon: "CHR '':'' \<notin> set l \<Longrightarrow> validate_line d l = d"
  by (simp add: validate_line_def)

lemma validate_line_colon:
  "CHR '':'' \<notin> set k \<Longrightarrow> validate_line d (k @ CHR '':'' # v) =
     (if py_strip v \<noteq> ''Not found'' then dict_set (snake_key k) (py_strip v) d else d)"
  by (simp add: validate_line_def split_first_at Let_def)

lemma foldl_validate_no_colon:
  "\<forall>l\<in>set ls. CHR '':'' \<notin> set l \<Longrightarrow> foldl validate_line d ls = d"
  by (induction ls arbitrary: d) (simp_all add: validate_line_no_colon)

lemma colon_not_space: "\<not> is_space CHR '':''"
  by (simp add: is_space_code)


lemma key_roundtrip:
  "\<forall>k\<in>set FIELD_NAMES. snake_key (render_key k) = k \<and> CHR '':'' \<notin> set (render_key k) \<and> NL \<notin> set (render_key k)"
  by code_simp


lemma render_line: "render info = py_join [NL] (map (\<lambda>(k, v). render_key k @ CHR '':'' # CHR '' '' # py_str v) info)"
  by (simp add: render_def render_key_def)

lemma space_is_space: "is_space CHR '' ''"
  by (simp add: is_space_code)

lemma validate_rendered_line:
  assumes "k \<in> set FIELD_NAMES"
  shows "validate_line d (render_key k @ CHR '':'' # CHR '' '' # v) =
     (if py_strip v \<noteq> ''Not found'' then dict_set k (py_strip v) d else d)"
proof -
  from assms key_roundtrip have "snake_key (render_key k) = k" "CHR '':'' \<notin> set (render_key k)"
    by blast+
  then show ?thesis
    by (simp add: validate_line_colon py_strip_space_Cons space_is_space)
qed

lemma foldl_validate_rendered:
  assumes "distinct ks" "set ks \<subseteq> set FIELD_NAMES" "length vs = length ks" "set ks \<inter> fst ` set d = {}"
  shows "foldl validate_line d (map (\<lambda>(k, v). render_key k @ CHR '':'' # CHR '' '' # py_str v) (zip ks (map Str vs))) =
     d @ filter (\<lambda>(k, v). v \<noteq> ''Not found'') (zip ks (map py_strip vs))"
  using assms
proof (induction ks arbitrary: vs d)
  case Nil
  then show ?case by simp
next
  case (Cons k ks)
  from Cons.prems(3) obtain v vs' where vs: "vs = v # vs'" and len: "length vs' = length ks"
    by (cases vs) auto
  from Cons.prems have k: "k \<in> set FIELD_NAMES" and fresh: "k \<notin> fst ` set d"
    and rest: "distinct ks" "set ks \<subseteq> set FIELD_NAMES" and knew: "k \<notin> set ks"
    and disj: "set ks \<inter> fst ` set d = {}"
    by auto
  let ?d = "if py_strip v \<noteq> ''Not found'' then d @ [(k, py_strip v)] else d"
  have step: "validate_line d (render_key k @ CHR '':'' # CHR '' '' # v) = ?d"
    using fresh by (simp add: validate_rendered_line [OF k] dict_set_fresh)
  have "set ks \<inter> fst ` set ?d = {}"
    using disj knew by auto
  from Cons.IH [OF rest len this] step show ?case
    by (simp add: vs)
qed

lemma validate_render:
  assumes "length vs = 10" and "\<forall>v\<in>set vs. NL \<notin> set v"
  shows "validate_extracted_info (render (zip FIELD_NAMES (map Str vs))) =
     filter (\<lambda>(k, v). v \<noteq> ''Not found'') (zip FIELD_NAMES (map py_strip vs))"
proof -
  let ?lines = "map (\<lambda>(k, v). render_key k @ CHR '':'' # CHR '' '' # py_str v) (zip FIELD_NAMES (map Str vs))"
  have len: "length vs = length FIELD_NAMES"
    using assms(1) by (simp add: FIELD_NAMES_def)
  then have "?lines \<noteq> []"
    by (cases vs) (auto simp: FIELD_NAMES_def)
  moreover have "\<forall>l\<in>set ?lines. NL \<notin> set l"
  proof
    fix l assume "l \<in> set ?lines"
    then obtain k v where kv: "(k, v) \<in> set (zip FIELD_NAMES vs)" and l: "l = render_key k @ CHR '':'' # CHR '' '' # v"
      by (auto simp: zip_map2)
    from kv have "k \<in> set FIELD_NAMES" "v \<in> set vs"
      by (auto dest: set_zip_leftD set_zip_rightD)
    with key_roundtrip assms(2) have "NL \<notin> set (render_key k)" "NL \<notin> set v"
      by blast+
    then show "NL \<notin> set l"
      by (simp add: l NL_def)
  qed
  ultimately have "py_split NL (py_join [NL] ?lines) = ?lines"
    by (rule py_split_join)
  then have "validate_extracted_info (render (zip FIELD_NAMES (map Str vs))) = foldl validate_line [] ?lines"
    by (simp only: validate_extracted_info_def render_line)
  also have "\<dots> = [] @ filter (\<lambda>(k, v). v \<noteq> ''Not found'') (zip FIELD_NAMES (map py_strip vs))"
    by (rule foldl_validate_rendered) (simp_all add: distinct_FIELD_NAMES len)
  finally show ?thesis by simp
qed

lemma filter_directly_Str:
  "filter_directly (zip ks (map Str vs)) = filter (\<lambda>(k, v). v \<noteq> ''Not found'') (zip ks vs)"
  unfolding filter_directly_def
  by (induction ks vs rule: list_induct2') (auto simp: NOT_FOUND_def)


lemma padded_value_validated:
  "validate_extracted_info (render report_with_padded_value) = [(''invoice_number'', ''x'')]"
  by code_simp

lemma padded_value_filtered:
  "filter_directly report_with_padded_value = [(''invoice_number'', '' x'')]"
  by code_simp


lemma filtered_example:
  "filter_directly (zip FIELD_NAMES (map Str [''INV123'', ''Not found'', ''1,234.50'', ''01/02/2024'', ''Not found'', ''Not found'',
        ''Not found'', ''Not found'', ''Not found'', ''Not found''])) =
    [(''invoice_number'', ''INV123''), (''amount_due'', ''1,234.50''), (''due_date'', ''01/02/2024'')]"
  by code_simp


lemma paid_at_example:
  "snake_key ''Paid At'' = ''paid_at''" "py_strip '' 10:30:05 '' = ''10:30:05''"
  by code_simp+


section \<open>Claims about validation\<close>

text \<open>
  C2 (as amended).  For every report with the ten field names and string values without
  newlines, rendering it as \<open>Title Case Key: Value\<close> lines and re-parsing the lines with the
  validator gives each value stripped of its leading and trailing whitespace, under its
  snake_case key, and drops the entries whose stripped value is the sentinel; when no value
  has leading or trailing whitespace, this is the direct filter of the report.
\<close>

theorem render_then_validate:
  assumes "length vs = 10" and "\<forall>v\<in>set vs. NL \<notin> set v"
  shows "validate_extracted_info (render (zip FIELD_NAMES (map Str vs))) =
           filter_directly (zip FIELD_NAMES (map Str (map py_strip vs))) \<and>
         ((\<forall>v\<in>set vs. py_strip v = v) \<longrightarrow>
           validate_extracted_info (render (zip FIELD_NAMES (map Str vs))) =
           filter_directly (zip FIELD_NAMES (map Str vs)))"
proof -
  have a: "validate_extracted_info (render (zip FIELD_NAMES (map Str vs))) =
           filter_directly (zip FIELD_NAMES (map Str (map py_strip vs)))"
    using validate_render [OF assms] by (simp only: filter_directly_Str)
  have "map py_strip vs = vs" if "\<forall>v\<in>set vs. py_strip v = v"
    using that by (simp add: map_idI)
  then have "validate_extracted_info (render (zip FIELD_NAMES (map Str vs))) =
           filter_directly (zip FIELD_NAMES (map Str vs))" if "\<forall>v\<in>set vs. py_strip v = v"
    using that a by (simp only:)
  with a show ?thesis by (intro conjI impI)
qed


theorem render_then_validate_witness:
  "length [''INV123'', ''Not found'', ''1,234.50'', ''01/02/2024'', ''Not found'', ''Not found'',
        ''Not found'', ''Not found'', ''Not found'', ''Not found''] = (10 :: nat) \<and>
   list_all (\<lambda>v. NL \<notin> set v \<and> py_strip v = v)
       [''INV123'', ''Not found'', ''1,234.50'', ''01/02/2024'', ''Not found'', ''Not found'',
        ''Not found'', ''Not found'', ''Not found'', ''Not found''] \<and>
   validate_extracted_info (render (zip FIELD_NAMES (map Str
       [''INV123'', ''Not found'', ''1,234.50'', ''01/02/2024'', ''Not found'', ''Not found'',
        ''Not found'', ''Not found'', ''Not found'', ''Not found'']))) =
    [(''invoice_number'', ''INV123''), (''amount_due'', ''1,234.50''), (''due_date'', ''01/02/2024'')]"
proof -
  let ?vs = "[''INV123'', ''Not found'', ''1,234.50'', ''01/02/2024'', ''Not found'', ''Not found'',
        ''Not found'', ''Not found'', ''Not found'', ''Not found'']"
  have len: "length ?vs = 10"
    by simp
  have nl: "\<forall>v\<in>set ?vs. NL \<notin> set v"
    by (simp add: NL_def)
  have st: "\<forall>v\<in>set ?vs. py_strip v = v"
    by code_simp
  from render_then_validate [OF len nl] st
  have "validate_extracted_info (render (zip FIELD_NAMES (map Str ?vs))) =
      filter_directly (zip FIELD_NAMES (map Str ?vs))"
    by (rule conjunct2 [THEN mp])
  moreover have "list_all (\<lambda>v. NL \<notin> set v \<and> py_strip v = v) ?vs"
    by code_simp
  ultimately show ?thesis
    using len by (simp only: filtered_example)
qed

text \<open>
  C2 as stated fails: a value with a leading space comes back without it, so re-parsing the
  rendered report is not the direct filter.
\<close>

theorem render_then_validate_strips_values:
  "validate_extracted_info (render report_with_padded_value) \<noteq> filter_directly report_with_padded_value"
  by (simp add: padded_value_validated padded_value_filtered)


text \<open>
  C10.  A line \<open>key:v\<close> whose part \<open>v\<close> after the first colon contains further colons
  gives the entry that maps the snake-cased key to the whole of \<open>v\<close>, stripped of leading
  and trailing whitespace, with every colon of \<open>v\<close> kept; lines without a colon, before or
  after it, leave no trace.
\<close>

theorem validator_splits_at_first_colon:
  assumes key: "CHR '':'' \<notin> set key" "NL \<notin> set key"
    and val: "CHR '':'' \<in> set v" "NL \<notin> set v"
    and others: "\<forall>l \<in> set before \<union> set after. CHR '':'' \<notin> set l \<and> NL \<notin> set l"
  shows "validate_extracted_info (py_join [NL] (before @ [key @ '':'' @ v] @ after)) =
           [(snake_key key, py_strip v)] \<and>
         filter (\<lambda>c. c = CHR '':'') (py_strip v) = filter (\<lambda>c. c = CHR '':'') v"
proof -
  let ?line = "key @ '':'' @ v"
  have colons: "filter (\<lambda>c. c = CHR '':'') (py_strip v) = filter (\<lambda>c. c = CHR '':'') v"
    by (rule filter_py_strip) (simp add: colon_not_space)
  from val(1) have "filter (\<lambda>c. c = CHR '':'') v \<noteq> []"
    by (simp add: filter_empty_conv)
  with colons have "filter (\<lambda>c. c = CHR '':'') (py_strip v) \<noteq> []"
    by simp
  then have "py_strip v \<noteq> ''Not found''"
    by auto
  then have line: "validate_line d ?line = dict_set (snake_key key) (py_strip v) d" for d
    using validate_line_colon [OF key(1), of d v] by simp
  have "\<forall>l\<in>set (before @ [?line] @ after). NL \<notin> set l"
    using key val others by auto
  then have "py_split NL (py_join [NL] (before @ [?line] @ after)) = before @ [?line] @ after"
    by (intro py_split_join) auto
  then have "validate_extracted_info (py_join [NL] (before @ [?line] @ after)) =
      foldl validate_line (validate_line (foldl validate_line [] before) ?line) after"
    by (simp add: validate_extracted_info_def)
  also have "foldl validate_line [] before = []"
    using others by (intro foldl_validate_no_colon) auto
  also have "validate_line [] ?line = [(snake_key key, py_strip v)]"
    by (simp only: line dict_set.simps)
  also have "foldl validate_line [(snake_key key, py_strip v)] after = [(snake_key key, py_strip v)]"
    using others by (intro foldl_validate_no_colon) auto
  finally show ?thesis using colons by simp
qed

theorem validator_splits_at_first_colon_witness:
  "CHR '':'' \<notin> set ''Paid At'' \<and> NL \<notin> set ''Paid At'' \<and>
   CHR '':'' \<in> set '' 10:30:05 '' \<and> NL \<notin> set '' 10:30:05 '' \<and>
   list_all (\<lambda>l. CHR '':'' \<notin> set l \<and> NL \<notin> set l) ([''Receipt''] @ [''Thank you'']) \<and>
   validate_extracted_info
     (py_join [NL] ([''Receipt''] @ [''Paid At'' @ '':'' @ '' 10:30:05 ''] @ [''Thank you''])) =
     [(''paid_at'', ''10:30:05'')]"
proof -
  have key: "CHR '':'' \<notin> set ''Paid At''" "NL \<notin> set ''Paid At''"
    by (simp_all add: NL_def)
  have val: "CHR '':'' \<in> set '' 10:30:05 ''" "NL \<notin> set '' 10:30:05 ''"
    by (simp_all add: NL_def)
  have others: "\<forall>l \<in> set [''Receipt''] \<union> set [''Thank you'']. CHR '':'' \<notin> set l \<and> NL \<notin> set l"
    by (simp add: NL_def)
  from validator_splits_at_first_colon [OF key val others]
  have "validate_extracted_info
     (py_join [NL] ([''Receipt''] @ [''Paid At'' @ '':'' @ '' 10:30:05 ''] @ [''Thank you''])) =
     [(snake_key ''Paid At'', py_strip '' 10:30:05 '')]"
    by (rule conjunct1)
  then have "validate_extracted_info
     (py_join [NL] ([''Receipt''] @ [''Paid At'' @ '':'' @ '' 10:30:05 ''] @ [''Thank you''])) =
     [(''paid_at'', ''10:30:05'')]"
    by (simp only: paid_at_example)
  moreover have "list_all (\<lambda>l. CHR '':'' \<notin> set l \<and> NL \<notin> set l) ([''Receipt''] @ [''Thank you''])"
    using others by (simp only: list_all_iff set_append)
  ultimately show ?thesis
    using key val by (intro conjI)
qed

section \<open>Preprocessing and the extraction thread\<close>

lemma extract_pages_ok:
  "extract_pages (map Inr page_texts) acc = Inr (acc @ concat (map (\<lambda>t. t @ [NL]) page_texts))"
  by (induction page_texts arbitrary: acc) simp_all

lemma py_strip_empty_iff: "py_strip s = [] \<longleftrightarrow> (\<forall>c\<in>set s. is_space c)"
proof
  assume "py_strip s = []"
  then have "\<forall>c\<in>set (dropWhile is_space s). is_space c"
    by (simp add: py_strip_def dropWhile_eq_Nil_conv)
  then have "dropWhile is_space s = []"
    using hd_dropWhile [of is_space s] by (cases "dropWhile is_space s") auto
  then show "\<forall>c\<in>set s. is_space c"
    by (simp add: dropWhile_eq_Nil_conv)
next
  assume "\<forall>c\<in>set s. is_space c"
  then show "py_strip s = []"
    by (auto simp: py_strip_def dest: set_dropWhileD)
qed

lemma NL_is_space: "is_space NL"
  by (simp add: NL_def is_space_code)

lemma pages_then_newlines:
  "page_texts \<noteq> [] \<Longrightarrow> concat (map (\<lambda>t. t @ [NL]) page_texts) = py_join [NL] page_texts @ [NL]"
  by (induction "[NL]" page_texts rule: py_join.induct) simp_all

lemma preprocess_pdf_read:
  assumes "read_bytes w pdf_path = Inr content" and "pdf_pages w content = Inr (map Inr page_texts)"
  shows "preprocess_pdf w pdf_path calls =
     (if \<forall>c\<in>set (concat page_texts). is_space c
      then (document_text_detection w content, calls @ [DocumentTextDetection content])
      else (Inr (concat (map (\<lambda>t. t @ [NL]) page_texts)), calls))"
proof -
  have "py_strip (concat (map (\<lambda>t. t @ [NL]) page_texts)) = [] \<longleftrightarrow>
      (\<forall>c\<in>set (concat page_texts). is_space c)"
    by (auto simp: py_strip_empty_iff NL_is_space)
  then show ?thesis
    using assms by (simp add: preprocess_pdf_def extract_pages_ok ocr_pdf_def)
qed

lemma bill_pdf: "endswith (py_lower ''Bill.PDF'') ''.pdf''"
  by code_simp

lemma two_page_join:
  "py_join [NL] [''Invoice Number: 7'', ''Due Date: 01/02/2024''] =
     ''Invoice Number: 7'' @ [NL] @ ''Due Date: 01/02/2024''"
  by simp


lemma run_try_cases:
  "run_try w file_path (sigs, calls) =
     (case preprocess_document w file_path calls of
        (Inl e, calls') \<Rightarrow> (Inl e, (sigs @ [UpdateProgress 10 ''Preprocessing document...''], calls'))
      | (Inr preprocessed_text, calls') \<Rightarrow>
          (case extract_information preprocessed_text of
             Inl e \<Rightarrow>
               (Inl e, (sigs @ [UpdateProgress 10 ''Preprocessing document...'',
                                UpdateProgress 40 ''Extracting information...''], calls'))
           | Inr extracted_text \<Rightarrow>
               (Inr (), (sigs @ [UpdateProgress 10 ''Preprocessing document...'',
                                 UpdateProgress 40 ''Extracting information...'',
                                 UpdateProgress 70 ''Validating extracted information...'',
                                 UpdateProgress 100 ''Extraction complete!'',
                                 ExtractionComplete (validate_extracted_info extracted_text)], calls'))))"
  by (simp add: run_try_def emit_def Let_def split: prod.splits sum.splits)

lemma missing_file_run_try:
  "run_try missing_file_world ''bill.txt'' ([], []) =
     (Inl (Exn ''No such file or directory''), ([UpdateProgress 10 ''Preprocessing document...''], []))"
  by code_simp


section \<open>Claims about preprocessing\<close>

text \<open>
  C4.  For a path that ends in \<open>.pdf\<close> (in any case) whose pages all have their text
  extracted and whose page texts hold nothing but whitespace, preprocessing makes exactly one
  request to the vision client, a document text detection on the bytes of the whole file, and
  its result is the result of that request, unchanged.
\<close>

theorem whitespace_pdf_falls_back_to_ocr:
  assumes "endswith (py_lower file_path) ''.pdf''"
    and "read_bytes w file_path = Inr content"
    and "pdf_pages w content = Inr (map Inr page_texts)"
    and "\<forall>c\<in>set (concat page_texts). is_space c"
  shows "preprocess_document w file_path calls =
     (document_text_detection w content, calls @ [DocumentTextDetection content])"
  using assms(1,4) by (simp add: preprocess_document_def preprocess_pdf_read [OF assms(2,3)])


theorem whitespace_pdf_falls_back_to_ocr_witness:
  "endswith (py_lower ''Bill.PDF'') ''.pdf'' \<and>
   read_bytes blank_page_world ''Bill.PDF'' = Inr ''%PDF-1.4'' \<and>
   pdf_pages blank_page_world ''%PDF-1.4'' = Inr (map Inr ['' '', []]) \<and>
   list_all is_space (concat ['' '', []]) \<and>
   preprocess_document blank_page_world ''Bill.PDF'' [] =
     (Inr ''scanned'', [DocumentTextDetection ''%PDF-1.4''])"
proof -
  have a: "read_bytes blank_page_world ''Bill.PDF'' = Inr ''%PDF-1.4''"
    and b: "pdf_pages blank_page_world ''%PDF-1.4'' = Inr (map Inr ['' '', []])"
    and c: "\<forall>c\<in>set (concat ['' '', []]). is_space c"
    and d: "document_text_detection blank_page_world ''%PDF-1.4'' = Inr ''scanned''"
    by (simp_all add: blank_page_world_def is_space_code)
  from whitespace_pdf_falls_back_to_ocr [OF bill_pdf a b c, of "[]"] d
  have "preprocess_document blank_page_world ''Bill.PDF'' [] =
     (Inr ''scanned'', [DocumentTextDetection ''%PDF-1.4''])"
    by simp
  moreover have "list_all is_space (concat ['' '', []])"
    using c by (simp only: list_all_iff)
  ultimately show ?thesis
    using bill_pdf a b by (intro conjI)
qed


text \<open>
  C8 (as amended).  For a path that ends in \<open>.pdf\<close> whose page texts hold a character
  that is not whitespace, preprocessing makes no request to the vision client and returns the
  page texts with a newline after each of them: one newline between consecutive pages and one
  more after the last page.
\<close>

theorem text_pdf_is_pages_with_newlines:
  assumes "endswith (py_lower file_path) ''.pdf''"
    and "read_bytes w file_path = Inr content"
    and "pdf_pages w content = Inr (map Inr page_texts)"
    and "\<exists>c\<in>set (concat page_texts). \<not> is_space c"
  shows "preprocess_document w file_path calls = (Inr (py_join [NL] page_texts @ [NL]), calls)"
proof -
  from assms(4) have "page_texts \<noteq> []"
    by auto
  then have "concat (map (\<lambda>t. t @ [NL]) page_texts) = py_join [NL] page_texts @ [NL]"
    by (rule pages_then_newlines)
  with assms(1,4) show ?thesis
    by (simp add: preprocess_document_def preprocess_pdf_read [OF assms(2,3)])
qed


theorem text_pdf_is_pages_with_newlines_witness:
  "endswith (py_lower ''Bill.PDF'') ''.pdf'' \<and>
   read_bytes two_page_world ''Bill.PDF'' = Inr ''%PDF-1.4'' \<and>
   pdf_pages two_page_world ''%PDF-1.4'' = Inr (map Inr [''Invoice Number: 7'', ''Due Date: 01/02/2024'']) \<and>
   (\<exists>c\<in>set (concat [''Invoice Number: 7'', ''Due Date: 01/02/2024'']). \<not> is_space c) \<and>
   preprocess_document two_page_world ''Bill.PDF'' [] =
     (Inr (''Invoice Number: 7'' @ [NL] @ ''Due Date: 01/02/2024'' @ [NL]), [])"
proof -
  have a: "read_bytes two_page_world ''Bill.PDF'' = Inr ''%PDF-1.4''"
    and b: "pdf_pages two_page_world ''%PDF-1.4'' = Inr (map Inr [''Invoice Number: 7'', ''Due Date: 01/02/2024''])"
    by (simp_all add: two_page_world_def)
  have "\<not> is_space CHR ''I''"
    by (simp add: is_space_code)
  then have c: "\<exists>c\<in>set (concat [''Invoice Number: 7'', ''Due Date: 01/02/2024'']). \<not> is_space c"
    by simp
  from text_pdf_is_pages_with_newlines [OF bill_pdf a b c, of "[]"]
  have "preprocess_document two_page_world ''Bill.PDF'' [] =
     (Inr (''Invoice Number: 7'' @ [NL] @ ''Due Date: 01/02/2024'' @ [NL]), [])"
    by (simp only: two_page_join append_assoc)
  with bill_pdf a b c show ?thesis
    by (intro conjI)
qed


text \<open>
  C8 as stated fails: the text returned for a PDF with two pages is not the two page texts
  joined by a newline, it ends with one more newline.
\<close>

theorem text_pdf_is_not_the_joined_pages:
  "preprocess_document two_page_world ''Bill.PDF'' [] \<noteq>
     (Inr (py_join [NL] [''Invoice Number: 7'', ''Due Date: 01/02/2024'']), [])"
proof -
  have a: "read_bytes two_page_world ''Bill.PDF'' = Inr ''%PDF-1.4''"
    and b: "pdf_pages two_page_world ''%PDF-1.4'' = Inr (map Inr [''Invoice Number: 7'', ''Due Date: 01/02/2024''])"
    by (simp_all add: two_page_world_def)
  have c: "\<not> (\<forall>c\<in>set (concat [''Invoice Number: 7'', ''Due Date: 01/02/2024'']). is_space c)"
    by (simp add: is_space_code)
  have "preprocess_document two_page_world ''Bill.PDF'' [] =
     (Inr (concat (map (\<lambda>t. t @ [NL]) [''Invoice Number: 7'', ''Due Date: 01/02/2024''])), [])"
    using bill_pdf c by (simp only: preprocess_document_def preprocess_pdf_read [OF a b] if_True if_False)
  then show ?thesis
    by simp
qed

section \<open>Claims about the extraction thread\<close>

text \<open>
  C7.  When the \<open>try\<close> block of \<open>run\<close> raises an exception, whichever of its calls raised
  it, no exception leaves \<open>run\<close>; the last signal emitted is a progress update of 100
  with the status \<open>Error: \<close> followed by the message of the exception, and every signal
  emitted before it in the run is a progress update below 100, so that no
  \<open>extraction_complete\<close> signal is emitted.
\<close>

theorem failed_run_reports_error:
  assumes "fst (run_try w file_path (sigs, calls)) = Inl e"
  shows "\<exists>progress calls'.
     run w file_path (sigs, calls) =
       (Inr (), (sigs @ progress @ [UpdateProgress 100 (''Error: '' @ message e)], calls')) \<and>
     (\<forall>s\<in>set progress. \<exists>n status. s = UpdateProgress n status \<and> n < 100)"
proof (cases "preprocess_document w file_path calls")
  case (Pair result calls')
  show ?thesis
  proof (cases result)
    case (Inl e')
    with Pair assms have "e' = e"
      by (simp add: run_try_cases)
    with Pair Inl have "run w file_path (sigs, calls) =
        (Inr (), (sigs @ [UpdateProgress 10 ''Preprocessing document...''] @
           [UpdateProgress 100 (''Error: '' @ message e)], calls'))"
      by (simp add: run_def run_try_cases emit_def)
    then show ?thesis
      by (intro exI [of _ "[UpdateProgress 10 ''Preprocessing document...'']"] exI [of _ calls']) simp
  next
    case (Inr preprocessed_text)
    show ?thesis
    proof (cases "extract_information preprocessed_text")
      case (Inl e')
      with Pair Inr assms have "e' = e"
        by (simp add: run_try_cases)
      with Pair Inr Inl have "run w file_path (sigs, calls) =
          (Inr (), (sigs @ [UpdateProgress 10 ''Preprocessing document...'',
                            UpdateProgress 40 ''Extracting information...''] @
             [UpdateProgress 100 (''Error: '' @ message e)], calls'))"
        by (simp add: run_def run_try_cases emit_def)
      then show ?thesis
        by (intro exI [of _ "[UpdateProgress 10 ''Preprocessing document...'',
                            UpdateProgress 40 ''Extracting information...'']"] exI [of _ calls']) simp
    next
      case (Inr extracted_text)
      with Pair \<open>result = Inr preprocessed_text\<close> assms show ?thesis
        by (simp add: run_try_cases)
    qed
  qed
qed


theorem failed_run_reports_error_witness:
  "fst (run_try missing_file_world ''bill.txt'' ([], [])) = Inl (Exn ''No such file or directory'') \<and>
   (\<exists>progress calls'.
      run missing_file_world ''bill.txt'' ([], []) =
        (Inr (), (progress @ [UpdateProgress 100 ''Error: No such file or directory''], calls')) \<and>
      (\<forall>s\<in>set progress. \<exists>n status. s = UpdateProgress n status \<and> n < 100))"
proof -
  have raised: "fst (run_try missing_file_world ''bill.txt'' ([], [])) = Inl (Exn ''No such file or directory'')"
    by (simp only: missing_file_run_try fst_conv)
  from failed_run_reports_error [OF raised] raised show ?thesis
    by simp
qed

section \<open>Presentation: reading the JSON rendering back\<close>

lemma unhex_hex_digit: "n < 16 \<Longrightarrow> unhex (hex_digit n) = Some n"
  by (auto simp: unhex_def hex_digit_def ord_def Let_def)

lemma ord_less_256: "ord c < 256"
  by (simp add: ord_def)

lemma char_of_ord: "char_of (ord c) = c"
  by (simp add: ord_def)

lemma unhex_zero: "unhex CHR ''0'' = Some 0"
  by (simp add: unhex_def ord_def)

lemma unescape_u: "unescape CHR ''u'' = None"
  by (simp add: unescape_def)

lemma ord_nibbles: "ord c div 16 < 16" "ord c mod 16 < 16"
  using ord_less_256 [of c] by simp_all

lemma str_run_unicode_escape:
  "str_run Plain acc [CHR 0x5C, CHR ''u'', CHR ''0'', CHR ''0'', hex_digit (ord c div 16), hex_digit (ord c mod 16)] =
     Open (acc @ [c]) Plain"
  by (simp add: unescape_u unhex_zero unhex_hex_digit ord_nibbles ord_less_256 char_of_ord)

lemma str_run_escape_char: "str_run Plain acc (json_escape_char c) = Open (acc @ [c]) Plain"
proof (cases "json_escape_char c =
    [CHR 0x5C, CHR ''u'', CHR ''0'', CHR ''0'', hex_digit (ord c div 16), hex_digit (ord c mod 16)]")
  case True
  then show ?thesis by (simp only: str_run_unicode_escape)
next
  case False
  then show ?thesis
    by (auto simp: json_escape_char_def unescape_def ord_def split: if_splits)
qed

lemma str_run_append:
  "str_run st acc xs = Open acc' st' \<Longrightarrow> str_run st acc (xs @ ys) = str_run st' acc' ys"
  by (induction xs arbitrary: st acc) (auto split: str_result.splits)

lemma str_run_escaped: "str_run Plain acc (concat (map json_escape_char s)) = Open (acc @ s) Plain"
proof (induction s arbitrary: acc)
  case Nil
  then show ?case by simp
next
  case (Cons c s)
  have "str_run Plain acc (json_escape_char c @ concat (map json_escape_char s)) =
      str_run Plain (acc @ [c]) (concat (map json_escape_char s))"
    by (rule str_run_append) (rule str_run_escape_char)
  then show ?case by (simp add: Cons.IH)
qed

lemma scan_key_run:
  "str_run st acc xs = Open acc' st' \<Longrightarrow>
     json_scan (InKey acc st) d (xs @ rest) = json_scan (InKey acc' st') d rest"
  by (induction xs arbitrary: st acc) (auto split: str_result.splits)

lemma scan_value_run:
  "str_run st acc xs = Open acc' st' \<Longrightarrow>
     json_scan (InValue k acc st) d (xs @ rest) = json_scan (InValue k acc' st') d rest"
  by (induction xs arbitrary: st acc) (auto split: str_result.splits)

lemma scan_key:
  "json_scan (InKey [] Plain) d (concat (map json_escape_char k) @ CHR 0x22 # rest) =
     json_scan (BeforeColon k) d rest"
  using scan_key_run [OF str_run_escaped [of "[]" k], of d "CHR 0x22 # rest"] by simp

lemma scan_value:
  "json_scan (InValue k [] Plain) d (concat (map json_escape_char v) @ CHR 0x22 # rest) =
     json_scan AfterValue (dict_set k v d) rest"
  using scan_value_run [OF str_run_escaped [of "[]" v], of k d "CHR 0x22 # rest"] by simp

lemma scan_member:
  "json_scan (InKey [] Plain) d (tl (json_string k) @ '': '' @ json_string v @ rest) =
     json_scan AfterValue (dict_set k v d) rest"
proof -
  have "tl (json_string k) @ '': '' @ json_string v @ rest =
      concat (map json_escape_char k) @ CHR 0x22 # ('': '' @ json_string v @ rest)"
    by (simp add: json_string_def)
  then have "json_scan (InKey [] Plain) d (tl (json_string k) @ '': '' @ json_string v @ rest) =
      json_scan (BeforeColon k) d ('': '' @ json_string v @ rest)"
    by (simp only: scan_key)
  also have "\<dots> = json_scan (InValue k [] Plain) d (concat (map json_escape_char v) @ CHR 0x22 # rest)"
    by (simp add: json_string_def json_ws_def)
  finally show ?thesis by (simp only: scan_value)
qed

lemma py_join_Cons: "py_join sep (x # xs) = x @ concat (map (\<lambda>y. sep @ y) xs)"
  by (induction xs arbitrary: x) simp_all

lemma json_dumps_members:
  "json_dumps (kv # d) =
     ''{'' @ [NL] @ ''  '' @ json_member kv @
     concat (map (\<lambda>y. ('','' @ [NL] @ ''  '') @ y) (map json_member d)) @ [NL] @ ''}''"
proof -
  have "map (\<lambda>(k, v). json_string k @ '': '' @ json_string v) (kv # d) = json_member kv # map json_member d"
    by (simp add: json_member_def case_prod_unfold)
  then show ?thesis
    by (simp only: json_dumps_def py_join_Cons list.simps if_False append_assoc)
qed

lemma scan_first_member:
  "json_scan BeforeFirstKey d (json_member (k, v) @ rest) = json_scan AfterValue (dict_set k v d) rest"
proof -
  have "json_member (k, v) @ rest = CHR 0x22 # (tl (json_string k) @ '': '' @ json_string v @ rest)"
    by (simp add: json_member_def json_string_def)
  then have "json_scan BeforeFirstKey d (json_member (k, v) @ rest) =
      json_scan (InKey [] Plain) d (tl (json_string k) @ '': '' @ json_string v @ rest)"
    by (simp add: json_ws_def)
  then show ?thesis by (simp only: scan_member)
qed

lemma scan_next_member:
  "json_scan AfterValue d (('','' @ [NL] @ ''  '') @ json_member (k, v) @ rest) =
     json_scan AfterValue (dict_set k v d) rest"
proof -
  have "json_member (k, v) @ rest = CHR 0x22 # (tl (json_string k) @ '': '' @ json_string v @ rest)"
    by (simp add: json_member_def json_string_def)
  then have "json_scan AfterValue d (('','' @ [NL] @ ''  '') @ json_member (k, v) @ rest) =
      json_scan (InKey [] Plain) d (tl (json_string k) @ '': '' @ json_string v @ rest)"
    by (simp add: json_ws_def NL_def)
  then show ?thesis by (simp only: scan_member)
qed

lemma scan_members:
  "json_scan AfterValue acc (concat (map (\<lambda>y. ('','' @ [NL] @ ''  '') @ y) (map json_member ds)) @ rest) =
     json_scan AfterValue (foldl (\<lambda>a kv. dict_set (fst kv) (snd kv) a) acc ds) rest"
proof (induction ds arbitrary: acc)
  case Nil
  then show ?case by simp
next
  case (Cons kv ds)
  have "concat (map (\<lambda>y. ('','' @ [NL] @ ''  '') @ y) (map json_member (kv # ds))) @ rest =
      ('','' @ [NL] @ ''  '') @ json_member (fst kv, snd kv) @
      (concat (map (\<lambda>y. ('','' @ [NL] @ ''  '') @ y) (map json_member ds)) @ rest)"
    by simp
  then show ?case
    by (simp only: scan_next_member Cons.IH foldl_Cons)
qed

lemma foldl_dict_set_distinct:
  "distinct (map fst (acc @ ds)) \<Longrightarrow> foldl (\<lambda>a kv. dict_set (fst kv) (snd kv) a) acc ds = acc @ ds"
proof (induction ds arbitrary: acc)
  case Nil
  then show ?case by simp
next
  case (Cons kv ds)
  from Cons.prems have "fst kv \<notin> fst ` set acc"
    by auto
  then have "dict_set (fst kv) (snd kv) acc = acc @ [kv]"
    by (simp add: dict_set_fresh)
  moreover from Cons.prems have "distinct (map fst ((acc @ [kv]) @ ds))"
    by simp
  ultimately show ?case using Cons.IH [of "acc @ [kv]"] by simp
qed

lemma scan_end: "json_scan AfterValue d ([NL] @ ''}'') = Some d"
  by (simp add: json_ws_def NL_def)

lemma json_round_trip:
  assumes "distinct (map fst d)"
  shows "json_loads (display_results JSON d) = Some d"
proof (cases d)
  case Nil
  then show ?thesis
    by (simp add: json_loads_def display_results_def json_dumps_def json_ws_def)
next
  case (Cons kv ds)
  let ?sep = "\<lambda>y. ('','' @ [NL] @ ''  '') @ y"
  have "json_loads (json_dumps (kv # ds)) =
      json_scan BeforeFirstKey [] (json_member (fst kv, snd kv) @
        (concat (map ?sep (map json_member ds)) @ [NL] @ ''}''))"
    by (simp add: json_loads_def json_dumps_members json_ws_def NL_def)
  also have "\<dots> = json_scan AfterValue (dict_set (fst kv) (snd kv) [])
      (concat (map ?sep (map json_member ds)) @ [NL] @ ''}'')"
    by (rule scan_first_member)
  also have "\<dots> = json_scan AfterValue (foldl (\<lambda>a kv. dict_set (fst kv) (snd kv) a) [kv] ds) ([NL] @ ''}'')"
    by (simp only: scan_members dict_set.simps prod.collapse)
  also have "foldl (\<lambda>a kv. dict_set (fst kv) (snd kv) a) [kv] ds = [kv] @ ds"
    using assms Cons by (intro foldl_dict_set_distinct) simp
  finally have "json_loads (json_dumps (kv # ds)) = Some ([kv] @ ds)"
    by (simp only: scan_end)
  then show ?thesis
    using Cons by (simp add: display_results_def)
qed

section \<open>Claims about presentation\<close>

lemma example_bill_validated:
  "(case extract_information example_bill of Inl e \<Rightarrow> [] | Inr t \<Rightarrow> validate_extracted_info t) =
     example_validated"
  by code_simp

lemma example_validated_csv:
  "display_results CSV example_validated =
     ''Key,Value'' @ [NL] @ ''invoice_number,INV123'' @ [NL] @ ''invoice_date,01/02/2024'' @ [NL] @
     ''amount_due,1,234.50'' @ [NL] @ ''due_date,01/02/2024''"
  by code_simp

lemma amount_row_fields:
  "py_split CHR '','' ''amount_due,1,234.50'' = [''amount_due'', ''1'', ''234.50'']"
  by code_simp

lemma amount_row_two_readings:
  "display_results CSV [(''amount_due'', ''1,234.50'')] =
   display_results CSV [(''amount_due,1'', ''234.50'')]"
  by code_simp


text \<open>
  C6.  The claim holds of the JSON rendering (\<open>json_round_trip\<close>) and fails of the CSV
  rendering, which writes keys and values without quoting.  On the example bill of the
  specification the validated map has \<open>amount_due = "1,234.50"\<close>; its CSV row is
  \<open>amount_due,1,234.50\<close>, which has three comma-separated fields, and which is also the
  row of the different entry \<open>"amount_due,1" = "234.50"\<close>: the CSV text does not determine
  the map it was rendered from.
\<close>

theorem csv_of_example_bill_is_ambiguous:
  "(case extract_information example_bill of Inl e \<Rightarrow> [] | Inr t \<Rightarrow> validate_extracted_info t) =
     example_validated \<and>
   display_results CSV example_validated =
     ''Key,Value'' @ [NL] @ ''invoice_number,INV123'' @ [NL] @ ''invoice_date,01/02/2024'' @ [NL] @
     ''amount_due,1,234.50'' @ [NL] @ ''due_date,01/02/2024'' \<and>
   py_split CHR '','' ''amount_due,1,234.50'' = [''amount_due'', ''1'', ''234.50''] \<and>
   display_results CSV [(''amount_due'', ''1,234.50'')] =
     display_results CSV [(''amount_due,1'', ''234.50'')] \<and>
   [(''amount_due'', ''1,234.50'')] \<noteq> [(''amount_due,1'', ''234.50'')]"
  using example_bill_validated example_validated_csv amount_row_fields amount_row_two_readings
  by (intro conjI) simp_all

end
